theory Spec2Isabelle
  imports Complex_Main "HOL-Library.Multiset" "HOL-Library.AList"
begin

text \<open>
  A model of the Turing-AI chat server: its keyword extraction, its learner
  (\<open>IntelligentLearner.learnPattern\<close> and \<open>findBestResponse\<close>), the garbage gate of the
  chat handler, and the loading and saving of the memory with the save coordinator. The
  functions are those of the latest variant of the server (\<open>src/unnamed/part_000\<close>);
  where an older variant in \<open>src/server.js\<close> differs and matters, it is modelled beside
  it.
\<close>

section \<open>Text utilities\<close>

text \<open>
  Strings are lists of 8-bit characters read as ASCII text. \<open>toLowerCase\<close> maps
  \<open>A\<close>..\<open>Z\<close> to \<open>a\<close>..\<open>z\<close> and leaves every other character alone; the regular
  expression class \<open>\s\<close> is the ASCII white space (tab, line feed, vertical tab,
  form feed, carriage return, space).
\<close>

definition isUpper :: "char \<Rightarrow> bool" where
  "isUpper c \<longleftrightarrow> (let n = (of_char c :: nat) in 65 \<le> n \<and> n \<le> 90)"

text \<open>An upper-case letter becomes lower case by adding 32, that is by setting bit 5.\<close>

definition lowerChar :: "char \<Rightarrow> char" where
  "lowerChar c =
     (if isUpper c
      then (case c of Char b0 b1 b2 b3 b4 b5 b6 b7 \<Rightarrow> Char b0 b1 b2 b3 b4 True b6 b7)
      else c)"

definition toLowerCase :: "string \<Rightarrow> string" where
  "toLowerCase s = map lowerChar s"

definition isSpace :: "char \<Rightarrow> bool" where
  "isSpace c \<longleftrightarrow> (let n = (of_char c :: nat) in (9 \<le> n \<and> n \<le> 13) \<or> n = 32)"

definition isLowerAlnum :: "char \<Rightarrow> bool" where
  "isLowerAlnum c \<longleftrightarrow> (let n = (of_char c :: nat) in (97 \<le> n \<and> n \<le> 122) \<or> (48 \<le> n \<and> n \<le> 57))"

text \<open>\<^verbatim>\<open>s.split(/\s+/)\<close>: the pieces between maximal runs of white space, the empty
  piece before a leading run and after a trailing run included.\<close>

function splitWs :: "string \<Rightarrow> string \<Rightarrow> string list" where
  "splitWs cur [] = [rev cur]"
| "splitWs cur (c # cs) =
     (if isSpace c then rev cur # splitWs [] (dropWhile isSpace cs)
      else splitWs (c # cur) cs)"
  by pat_completeness auto
termination
  by (relation "measure (\<lambda>(cur, s). length s)") (auto simp: length_dropWhile_le less_Suc_eq_le)

definition stopWords :: "string list" where
  "stopWords =
    [''the'', ''a'', ''an'', ''and'', ''or'', ''but'', ''in'', ''on'', ''at'', ''to'', ''for'',
     ''of'', ''with'', ''by'', ''from'', ''is'', ''are'', ''was'', ''were'', ''be'', ''been'',
     ''being'', ''have'', ''has'', ''had'', ''do'', ''does'', ''did'', ''will'', ''would'',
     ''could'', ''should'', ''may'', ''might'', ''can'', ''this'', ''that'', ''these'',
     ''those'', ''i'', ''you'', ''he'', ''she'', ''it'', ''we'', ''they'', ''what'', ''which'',
     ''who'', ''when'', ''where'', ''why'', ''how'']"

text \<open>\<^verbatim>\<open>[...new Set(words)]\<close>: the first occurrence of every word, in order.\<close>

primrec setInsertAll :: "'a list \<Rightarrow> 'a list \<Rightarrow> 'a list" where
  "setInsertAll seen [] = seen"
| "setInsertAll seen (x # xs) = setInsertAll (if x \<in> set seen then seen else seen @ [x]) xs"

definition extractKeywords :: "string \<Rightarrow> string list" where
  "extractKeywords text =
     (let stripped = filter (\<lambda>c. isLowerAlnum c \<or> isSpace c) (toLowerCase text);
          words = filter (\<lambda>w. length w > 2 \<and> w \<notin> set stopWords) (splitWs [] stripped)
      in setInsertAll [] words)"

section \<open>The knowledge base\<close>

text \<open>
  A \<open>PatternEntry\<close> object. \<open>quality\<close>, \<open>confidence\<close> and \<open>timestamp\<close> (epoch
  milliseconds) are JavaScript numbers that only ever hold integers here.
\<close>

record entry =
  input :: string
  response :: string
  quality :: int
  confidence :: int
  timestamp :: int

record stats =
  totalMessages :: int
  totalConversations :: int
  trainingDataPoints :: int
  garbageFiltered :: int
  liveConversationsLearned :: int

text \<open>\<open>globalMemory\<close>; the legacy field \<open>patterns\<close>, which no code reads or writes,
  is left out.\<close>

record memory =
  contextPairs :: "entry list"
  semanticClusters :: "string \<rightharpoonup> entry list"
  qualityScores :: "string \<rightharpoonup> int"
  stats :: stats

definition emptyStats :: stats where
  "emptyStats = \<lparr>totalMessages = 0, totalConversations = 0, trainingDataPoints = 0,
                  garbageFiltered = 0, liveConversationsLearned = 0\<rparr>"

definition emptyMemory :: memory where
  "emptyMemory = \<lparr>contextPairs = [], semanticClusters = Map.empty,
                   qualityScores = Map.empty, stats = emptyStats\<rparr>"

subsection \<open>Property access on a plain object\<close>

text \<open>
  \<open>semanticClusters\<close> and \<open>qualityScores\<close> are plain objects (an object literal, or
  what \<open>JSON.parse\<close> builds), so \<open>obj[k]\<close> finds the object's own property \<open>k\<close>
  or else the property \<open>k\<close> of \<open>Object.prototype\<close>. Every inherited value is a
  function or an object: truthy, and not an array.
\<close>

definition objectPrototypeKeys :: "string list" where
  "objectPrototypeKeys =
    [''constructor'', ''hasOwnProperty'', ''isPrototypeOf'', ''propertyIsEnumerable'',
     ''toLocaleString'', ''toString'', ''valueOf'', ''__proto__'', ''__defineGetter__'',
     ''__defineSetter__'', ''__lookupGetter__'', ''__lookupSetter__'']"

datatype 'a lookup = Undefined | Own 'a | Inherited

definition getProp :: "(string \<rightharpoonup> 'a) \<Rightarrow> string \<Rightarrow> 'a lookup" where
  "getProp obj k =
     (case obj k of
        Some v \<Rightarrow> Own v
      | None \<Rightarrow> if k \<in> set objectPrototypeKeys then Inherited else Undefined)"

text \<open>\<open>obj[k] = v\<close> creates or overwrites the own property, except for \<open>__proto__\<close>,
  whose inherited setter ignores a number.\<close>

definition setProp :: "(string \<rightharpoonup> int) \<Rightarrow> string \<Rightarrow> int \<Rightarrow> (string \<rightharpoonup> int)" where
  "setProp obj k v = (if k = ''__proto__'' then obj else obj(k \<mapsto> v))"

section \<open>IntelligentLearner.learnPattern\<close>

text \<open>\<open>xs.findIndex(p)\<close>, with \<open>None\<close> for \<open>-1\<close>.\<close>

fun findIndex :: "('a \<Rightarrow> bool) \<Rightarrow> 'a list \<Rightarrow> nat option" where
  "findIndex p [] = None"
| "findIndex p (x # xs) = (if p x then Some 0 else map_option Suc (findIndex p xs))"

text \<open>\<open>e.confidence || 1\<close>: a confidence of 0 counts as 1. So does a missing one, as in
  entries written by the oldest variant of the server; this record holds it as 0.\<close>

definition confidenceOr1 :: "entry \<Rightarrow> int" where
  "confidenceOr1 e = (if confidence e = 0 then 1 else confidence e)"

definition score :: "entry \<Rightarrow> int" where
  "score e = quality e * confidenceOr1 e"

definition newEntry :: "string \<Rightarrow> string \<Rightarrow> int \<Rightarrow> int \<Rightarrow> entry" where
  "newEntry inputLower resp q now =
     \<lparr>input = inputLower, response = resp, quality = q, confidence = 1, timestamp = now\<rparr>"

definition reinforce :: "entry \<Rightarrow> int \<Rightarrow> entry" where
  "reinforce existing now =
     existing\<lparr>confidence := confidenceOr1 existing + 1,
              quality := min 100 (quality existing + 2),
              timestamp := now\<rparr>"

text \<open>\<open>ageInDays > 30\<close> with \<open>ageInDays = (now - timestamp) / (1000*60*60*24)\<close>,
  written without the division.\<close>

definition olderThan30Days :: "entry \<Rightarrow> int \<Rightarrow> bool" where
  "olderThan30Days existing now \<longleftrightarrow> now - timestamp existing > 30 * (1000 * 60 * 60 * 24)"

text \<open>
  The find / reinforce / replace / insert block, which the source writes out twice with
  the same text: once for a keyword's cluster, once for \<open>contextPairs\<close>. \<open>now\<close> is
  the value of \<open>Date.now()\<close>, taken to be the same wherever one call reads the clock.
\<close>

definition upsert :: "string \<Rightarrow> string \<Rightarrow> int \<Rightarrow> int \<Rightarrow> entry list \<Rightarrow> entry list" where
  "upsert inputLower resp q now xs =
     (case findIndex (\<lambda>item. input item = inputLower) xs of
        Some i \<Rightarrow>
          (let existing = xs ! i in
           if response existing = resp then xs[i := reinforce existing now]
           else if q > quality existing + 10 \<or> olderThan30Days existing now
                then xs[i := newEntry inputLower resp q now]
                else xs)
      | None \<Rightarrow> xs @ [newEntry inputLower resp q now])"

text \<open>\<open>xs.sort((a, b) => score(b) - score(a))\<close>: a stable sort, highest score first.\<close>

definition sortByScore :: "entry list \<Rightarrow> entry list" where
  "sortByScore xs = sort_key (\<lambda>e. - score e) xs"

definition learnCluster :: "string \<Rightarrow> string \<Rightarrow> int \<Rightarrow> int \<Rightarrow> entry list \<Rightarrow> entry list" where
  "learnCluster inputLower resp q now xs =
     (let ranked = sortByScore (upsert inputLower resp q now xs)
      in if length ranked > 20 then take 20 ranked else ranked)"

definition learnPairs :: "string \<Rightarrow> string \<Rightarrow> int \<Rightarrow> int \<Rightarrow> entry list \<Rightarrow> entry list" where
  "learnPairs inputLower resp q now ps =
     (let ps' = upsert inputLower resp q now ps
      in if length ps' > 1000 then take 1000 (sortByScore ps') else ps')"

text \<open>
  A call either returns or raises a \<open>TypeError\<close>; what it changed in place before
  raising stays changed, so both outcomes carry the memory.
\<close>

datatype outcome = Normal | TypeError

text \<open>
  \<open>keywords.forEach(...)\<close>. For a keyword that the cluster object only inherits
  (\<open>constructor\<close>), \<open>!semanticClusters[keyword]\<close> is false, no array is created, and
  \<open>semanticClusters[keyword].findIndex\<close> is not a function: the call raises there.
\<close>

fun learnClusters ::
  "string list \<Rightarrow> string \<Rightarrow> string \<Rightarrow> int \<Rightarrow> int \<Rightarrow> (string \<rightharpoonup> entry list)
     \<Rightarrow> outcome \<times> (string \<rightharpoonup> entry list)" where
  "learnClusters [] inputLower resp q now cl = (Normal, cl)"
| "learnClusters (keyword # ks) inputLower resp q now cl =
     (case getProp cl keyword of
        Inherited \<Rightarrow> (TypeError, cl)
      | Undefined \<Rightarrow>
          learnClusters ks inputLower resp q now
            (cl(keyword \<mapsto> learnCluster inputLower resp q now []))
      | Own xs \<Rightarrow>
          learnClusters ks inputLower resp q now
            (cl(keyword \<mapsto> learnCluster inputLower resp q now xs)))"

definition learnPattern :: "string \<Rightarrow> string \<Rightarrow> int \<Rightarrow> int \<Rightarrow> memory \<Rightarrow> outcome \<times> memory" where
  "learnPattern inp resp q now m =
     (let keywords = extractKeywords inp;
          inputLower = toLowerCase inp
      in case learnClusters keywords inputLower resp q now (semanticClusters m) of
           (TypeError, cl) \<Rightarrow> (TypeError, m\<lparr>semanticClusters := cl\<rparr>)
         | (Normal, cl) \<Rightarrow>
             (Normal,
              m\<lparr>semanticClusters := cl,
                contextPairs :=
                  (if q \<ge> 60 then learnPairs inputLower resp q now (contextPairs m)
                   else contextPairs m),
                qualityScores := setProp (qualityScores m) inputLower q\<rparr>))"

section \<open>ResponseCache and metrics\<close>

text \<open>\<open>s.trim()\<close>\<close>

definition trim :: "string \<Rightarrow> string" where
  "trim s = rev (dropWhile isSpace (rev (dropWhile isSpace s)))"

record cacheEntry =
  cachedResponse :: string
  cachedAt :: int

text \<open>
  The cache is a \<open>Map\<close>, kept here in insertion order. Its key is the MD5 digest of
  the lower-cased, trimmed message; the digest is taken to identify that text, so the
  text itself is the key.
\<close>

type_synonym responseCache = "(string \<times> cacheEntry) list"

definition cacheKey :: "string \<Rightarrow> string" where
  "cacheKey message = trim (toLowerCase message)"

definition RESPONSE_CACHE_TTL_MS :: int where
  "RESPONSE_CACHE_TTL_MS = 5000"

definition cacheGet :: "string \<Rightarrow> int \<Rightarrow> responseCache \<Rightarrow> string option \<times> responseCache" where
  "cacheGet message now c =
     (let key = cacheKey message in
      case map_of c key of
        None \<Rightarrow> (None, c)
      | Some e \<Rightarrow>
          if now - cachedAt e > RESPONSE_CACHE_TTL_MS then (None, AList.delete key c)
          else (Some (cachedResponse e), c))"

definition cacheSet :: "string \<Rightarrow> string \<Rightarrow> int \<Rightarrow> responseCache \<Rightarrow> responseCache" where
  "cacheSet message resp now c =
     (let c' = AList.update (cacheKey message) \<lparr>cachedResponse = resp, cachedAt = now\<rparr> c
      in if length c' > 1000 then tl c' else c')"

record metrics =
  requestCount :: int
  errorCount :: int
  totalResponseTime :: int
  learningCount :: int
  cacheHits :: int
  cacheMisses :: int
  startTime :: int

text \<open>The process-wide state that the learner and the chat handler touch.\<close>

record server =
  globalMemory :: memory
  responseCache :: responseCache
  metrics :: metrics

section \<open>IntelligentLearner.findBestResponse\<close>

datatype found = Found string | Null | ThrowsTypeError

text \<open>
  The candidates: \<open>candidates.concat(semanticClusters[keyword])\<close> for every keyword
  whose lookup is truthy. An own cluster is an array and is spliced in; the inherited
  \<open>constructor\<close> is a function and is appended as one element (\<open>None\<close> here).
\<close>

definition candidatesFor :: "string list \<Rightarrow> (string \<rightharpoonup> entry list) \<Rightarrow> entry option list" where
  "candidatesFor keywords cl =
     concat (map (\<lambda>keyword. case getProp cl keyword of
                                Own xs \<Rightarrow> map Some xs
                              | Inherited \<Rightarrow> [None]
                              | Undefined \<Rightarrow> []) keywords)"

text \<open>\<open>relevanceScore * candidate.quality\<close>, in exact arithmetic where the source
  computes in double precision.\<close>

definition relevance :: "string list \<Rightarrow> entry \<Rightarrow> rat" where
  "relevance keywords candidate =
     (let candidateKeywords = extractKeywords (input candidate);
          overlap = length (filter (\<lambda>k. k \<in> set candidateKeywords) keywords);
          relevanceScore = of_nat overlap / of_nat (max (length keywords) 1)
      in relevanceScore * of_int (quality candidate))"

text \<open>
  The search of the memory: the whole of \<open>findBestResponse\<close> in \<open>server.js\<close>, and
  what follows the cache lookup in the later variant. Mapping over a candidate that is
  not an entry calls \<open>extractKeywords(undefined)\<close>, which raises.
\<close>

definition searchMemory :: "string \<Rightarrow> memory \<Rightarrow> found" where
  "searchMemory inp m =
     (let keywords = extractKeywords inp;
          inputLower = toLowerCase inp
      in case find (\<lambda>pair. input pair = inputLower) (contextPairs m) of
           Some exactMatch \<Rightarrow> Found (response exactMatch)
         | None \<Rightarrow>
             (let candidates = candidatesFor keywords (semanticClusters m) in
              if length candidates > 0 then
                if None \<in> set candidates then ThrowsTypeError
                else
                  (let scored = sort_key (\<lambda>(c, rel). - rel)
                                  (map (\<lambda>c. (the c, relevance keywords (the c))) candidates)
                   in if snd (hd scored) > 30 then Found (response (fst (hd scored)))
                      else Null)
              else Null))"

definition findBestResponse :: "string \<Rightarrow> int \<Rightarrow> server \<Rightarrow> found \<times> server" where
  "findBestResponse inp now s =
     (case cacheGet inp now (responseCache s) of
        (cached, c) \<Rightarrow>
          if cached \<noteq> None \<and> cached \<noteq> Some []
          then (Found (the cached),
                s\<lparr>responseCache := c,
                  metrics := (metrics s)\<lparr>cacheHits := cacheHits (metrics s) + 1\<rparr>\<rparr>)
          else
            (let s' = s\<lparr>responseCache := c,
                        metrics := (metrics s)\<lparr>cacheMisses := cacheMisses (metrics s) + 1\<rparr>\<rparr>
             in case searchMemory inp (globalMemory s') of
                  Found r \<Rightarrow> (Found r, s'\<lparr>responseCache := cacheSet inp r now c\<rparr>)
                | Null \<Rightarrow> (Null, s')
                | ThrowsTypeError \<Rightarrow> (ThrowsTypeError, s')))"

section \<open>Sequences of learning calls\<close>

text \<open>A call \<open>learnPattern(input, response, quality)\<close> made at time \<open>now\<close>.\<close>

type_synonym call = "string \<times> string \<times> int \<times> int"

definition learnCall :: "memory \<Rightarrow> call \<Rightarrow> memory" where
  "learnCall m c = (case c of (inp, resp, q, now) \<Rightarrow> snd (learnPattern inp resp q now m))"

text \<open>The memory after a sequence of calls, whether or not one of them raised.\<close>

definition learnAll :: "call list \<Rightarrow> memory \<Rightarrow> memory" where
  "learnAll calls m = foldl learnCall m calls"

definition withinCaps :: "memory \<Rightarrow> bool" where
  "withinCaps m \<longleftrightarrow>
     (\<forall>k xs. semanticClusters m k = Some xs \<longrightarrow> length xs \<le> 20) \<and>
     length (contextPairs m) \<le> 1000"

text \<open>The cluster of a keyword as the \<open>forEach\<close> body sees it: created empty when absent.\<close>

definition clusterOf :: "memory \<Rightarrow> string \<Rightarrow> entry list" where
  "clusterOf m k = (case semanticClusters m k of None \<Rightarrow> [] | Some xs \<Rightarrow> xs)"

text \<open>
  The keywords whose clusters a call updates: all of them, or, when the call raises, those
  before the first keyword that the cluster object merely inherits.
\<close>

definition processedKeywords :: "memory \<Rightarrow> string \<Rightarrow> string list" where
  "processedKeywords m inp =
     takeWhile (\<lambda>k. getProp (semanticClusters m) k \<noteq> Inherited) (extractKeywords inp)"

section \<open>Stored patterns\<close>

text \<open>An entry is stored when it is in \<open>contextPairs\<close> or in some cluster.\<close>

definition storedPattern :: "memory \<Rightarrow> entry \<Rightarrow> bool" where
  "storedPattern m e \<longleftrightarrow>
     e \<in> set (contextPairs m) \<or> (\<exists>k xs. semanticClusters m k = Some xs \<and> e \<in> set xs)"

definition sharesNoKeyword :: "string \<Rightarrow> memory \<Rightarrow> bool" where
  "sharesNoKeyword inp m \<longleftrightarrow>
     (\<forall>e. storedPattern m e \<longrightarrow>
        set (extractKeywords inp) \<inter> set (extractKeywords (input e)) = {})"

text \<open>A server that has just started on a given memory: empty cache, zero counters.\<close>

definition freshMetrics :: metrics where
  "freshMetrics = \<lparr>requestCount = 0, errorCount = 0, totalResponseTime = 0, learningCount = 0,
                    cacheHits = 0, cacheMisses = 0, startTime = 0\<rparr>"

definition serverWith :: "memory \<Rightarrow> server" where
  "serverWith m = \<lparr>globalMemory = m, responseCache = [], metrics = freshMetrics\<rparr>"

section \<open>Invariants of the learnt memory\<close>

text \<open>Every entry that \<open>learnPattern\<close> writes has a confidence of at least 1, so that
  \<open>confidence || 1\<close> is the confidence itself.\<close>

definition confident :: "entry list \<Rightarrow> bool" where
  "confident xs \<longleftrightarrow> (\<forall>e\<in>set xs. confidence e \<ge> 1)"

definition confidentMemory :: "memory \<Rightarrow> bool" where
  "confidentMemory m \<longleftrightarrow>
     confident (contextPairs m) \<and> (\<forall>k xs. semanticClusters m k = Some xs \<longrightarrow> confident xs)"

text \<open>After a sort by score, whatever lies beyond the cap scores no higher than
  anything within it.\<close>

definition lowestEvicted :: "nat \<Rightarrow> entry list \<Rightarrow> bool" where
  "lowestEvicted cap xs \<longleftrightarrow>
     (\<forall>kept\<in>set (take cap xs). \<forall>evicted\<in>set (drop cap xs).
        quality evicted * confidence evicted \<le> quality kept * confidence kept)"

section \<open>Learning one pair repeatedly\<close>

text \<open>\<open>learnPattern(inp, resp, q)\<close> called once at each of the times \<open>nows\<close>.\<close>

definition learnTimes :: "string \<Rightarrow> string \<Rightarrow> int \<Rightarrow> int list \<Rightarrow> memory \<Rightarrow> memory" where
  "learnTimes inp resp q nows m = learnAll (map (\<lambda>now. (inp, resp, q, now)) nows) m"

text \<open>The entries of a list that are stored for a given lower-cased input.\<close>

definition entriesFor :: "string \<Rightarrow> entry list \<Rightarrow> entry list" where
  "entriesFor inputLower xs = filter (\<lambda>e. input e = inputLower) xs"

definition mentions :: "memory \<Rightarrow> string \<Rightarrow> bool" where
  "mentions m inputLower \<longleftrightarrow> (\<exists>e. storedPattern m e \<and> input e = inputLower)"

text \<open>The entry expected after \<open>n\<close> reinforcing calls, the last at time \<open>t\<close>.\<close>

definition learnedEntry :: "string \<Rightarrow> string \<Rightarrow> int \<Rightarrow> nat \<Rightarrow> int \<Rightarrow> entry" where
  "learnedEntry inputLower resp q n t =
     \<lparr>input = inputLower, response = resp, quality = min 100 (q + 2 * (int n - 1)),
      confidence = int n, timestamp = t\<rparr>"

text \<open>The entries that a new entry of quality \<open>q\<close> (and confidence 1) does not
  outrank: those whose score is at least \<open>q\<close>. The sort puts them before it.\<close>

definition rivals :: "int \<Rightarrow> entry list \<Rightarrow> nat" where
  "rivals q xs = length (filter (\<lambda>e. score e \<ge> q) xs)"

text \<open>What repeated learning is to establish: in the cluster of every keyword of the
  input, and in \<open>contextPairs\<close> when the quality reaches 60, exactly one entry for the
  input, with the expected fields.\<close>

definition learntOnce :: "string \<Rightarrow> string \<Rightarrow> int \<Rightarrow> nat \<Rightarrow> int \<Rightarrow> memory \<Rightarrow> bool" where
  "learntOnce inp resp q n t m \<longleftrightarrow>
     (\<forall>k\<in>set (extractKeywords inp).
        entriesFor (toLowerCase inp) (clusterOf m k) = [learnedEntry (toLowerCase inp) resp q n t]) \<and>
     (q \<ge> 60 \<longrightarrow>
        entriesFor (toLowerCase inp) (contextPairs m) = [learnedEntry (toLowerCase inp) resp q n t])"

text \<open>The same, together with what keeps it true under a further call: the clusters
  exist as own properties and nothing exceeds its cap.\<close>

definition learntOnceInv :: "string \<Rightarrow> string \<Rightarrow> int \<Rightarrow> nat \<Rightarrow> int \<Rightarrow> memory \<Rightarrow> bool" where
  "learntOnceInv inp resp q n t m \<longleftrightarrow>
     learntOnce inp resp q n t m \<and>
     (\<forall>k\<in>set (extractKeywords inp).
        semanticClusters m k \<noteq> None \<and> length (clusterOf m k) \<le> 20) \<and>
     (q \<ge> 60 \<longrightarrow> length (contextPairs m) \<le> 1000)"

section \<open>A store with a full cluster\<close>

text \<open>Twenty inputs whose only keyword is \<open>cat\<close> (the second word is a stop word),
  each learnt once at quality 100.\<close>

definition catCalls :: "call list" where
  "catCalls = map (\<lambda>w. (''cat '' @ w, ''meow'', 100, 0)) (take 20 stopWords)"

definition catEntries :: "entry list" where
  "catEntries = map (\<lambda>w. newEntry (''cat '' @ w) ''meow'' 100 0) (take 20 stopWords)"

definition catStore :: memory where
  "catStore = learnAll catCalls emptyMemory"

section \<open>A store that knows one greeting\<close>

text \<open>\<open>learnPattern("hello", "hi", q)\<close> at time 0 on the empty store.\<close>

definition helloStore :: "int \<Rightarrow> memory" where
  "helloStore q = snd (learnPattern ''hello'' ''hi'' q 0 emptyMemory)"

definition day :: int where
  "day = 1000 * 60 * 60 * 24"

section \<open>The garbage gate of the chat handler\<close>

text \<open>
  The fixed reply; its last character, the emoji U+1F60A, is written as its four UTF-8
  bytes.
\<close>

definition garbageReply :: string where
  "garbageReply =
     ''Let's keep our conversation meaningful and respectful! '' @
     [CHR 0xF0, CHR 0x9F, CHR 0x98, CHR 0x8A]"

text \<open>The JSON body of the reply, without \<open>activeUsers\<close> (a count of sessions, which
  are not part of this model).\<close>

record chatJson =
  responseText :: string
  learnedFlag :: bool
  statsSent :: stats

text \<open>\<open>metrics.recordRequest(duration)\<close>, with \<open>hasError\<close> left at its default.\<close>

definition recordRequest :: "int \<Rightarrow> metrics \<Rightarrow> metrics" where
  "recordRequest duration mt =
     mt\<lparr>requestCount := requestCount mt + 1,
        totalResponseTime := totalResponseTime mt + duration\<rparr>"

text \<open>
  The \<open>/api/chat\<close> handler from the cleaned message to its first \<open>return\<close>: the test
  \<open>!cleanedMessage || GarbageClassifier.isGarbage(cleanedMessage)\<close> and the branch it
  guards. The classifier is a parameter; \<open>duration\<close> is \<open>Date.now() - startTime\<close>.
  The result is the reply sent, or \<open>None\<close> when the handler goes on to answer and
  learn, and the state.
\<close>

definition chatGate ::
  "(string \<Rightarrow> bool) \<Rightarrow> string \<Rightarrow> int \<Rightarrow> server \<Rightarrow> chatJson option \<times> server" where
  "chatGate isGarbage cleanedMessage duration s =
     (if cleanedMessage = [] \<or> isGarbage cleanedMessage then
        (let st = (stats (globalMemory s))
                    \<lparr>garbageFiltered := garbageFiltered (stats (globalMemory s)) + 1\<rparr>;
             s' = s\<lparr>globalMemory := (globalMemory s)\<lparr>stats := st\<rparr>,
                    metrics := recordRequest duration (metrics s)\<rparr>
         in (Some \<lparr>responseText = garbageReply, learnedFlag = False, statsSent = st\<rparr>, s'))
      else (None, s))"

text \<open>The same gate in the older \<open>server.js\<close>: it replies and changes nothing.\<close>

definition chatGateV1 ::
  "(string \<Rightarrow> bool) \<Rightarrow> string \<Rightarrow> server \<Rightarrow> chatJson option \<times> server" where
  "chatGateV1 isGarbage cleanedMessage s =
     (if cleanedMessage = [] \<or> isGarbage cleanedMessage then
        (Some \<lparr>responseText = garbageReply, learnedFlag = False,
               statsSent = stats (globalMemory s)\<rparr>, s)
      else (None, s))"

text \<open>A classifier that flags nothing.\<close>

definition flagsNothing :: "string \<Rightarrow> bool" where
  "flagsNothing text = False"

section \<open>Loading a snapshot\<close>

text \<open>What \<open>JSON.parse\<close> can return.\<close>

datatype json =
    JNull
  | JBool bool
  | JNumber rat
  | JString string
  | JArray "json list"
  | JObject "(string \<times> json) list"

text \<open>
  \<open>loaded.key\<close> for one of the keys \<open>stats\<close>, \<open>contextPairs\<close>, \<open>semanticClusters\<close>,
  none of which is a property of a prototype or an index: on \<open>null\<close> the access raises a
  \<open>TypeError\<close> (\<open>None\<close>); on an object it is the own property, or \<open>undefined\<close>; on any
  other value it is \<open>undefined\<close>. When a key occurs twice in the text, \<open>JSON.parse\<close>
  keeps the last value.
\<close>

datatype jsvalue = JsUndefined | JsValue json

definition getField :: "json \<Rightarrow> string \<Rightarrow> jsvalue option" where
  "getField loaded key =
     (case loaded of
        JNull \<Rightarrow> None
      | JObject members \<Rightarrow>
          (case map_of (rev members) key of
             None \<Rightarrow> Some JsUndefined
           | Some v \<Rightarrow> Some (JsValue v))
      | _ \<Rightarrow> Some JsUndefined)"

text \<open>The values that count as true in a condition.\<close>

fun truthy :: "jsvalue \<Rightarrow> bool" where
  "truthy JsUndefined = False"
| "truthy (JsValue JNull) = False"
| "truthy (JsValue (JBool b)) = b"
| "truthy (JsValue (JNumber n)) = (n \<noteq> 0)"
| "truthy (JsValue (JString s)) = (s \<noteq> [])"
| "truthy (JsValue (JArray xs)) = True"
| "truthy (JsValue (JObject members)) = True"

text \<open>
  \<open>loaded.stats && loaded.contextPairs && loaded.semanticClusters\<close>, evaluated from the
  left and stopping at the first falsy operand; \<open>None\<close> when an access raises.
\<close>

definition hasAllParts :: "json \<Rightarrow> bool option" where
  "hasAllParts loaded =
     (case getField loaded ''stats'' of
        None \<Rightarrow> None
      | Some st \<Rightarrow>
          if \<not> truthy st then Some False
          else (case getField loaded ''contextPairs'' of
                  None \<Rightarrow> None
                | Some cp \<Rightarrow>
                    if \<not> truthy cp then Some False
                    else (case getField loaded ''semanticClusters'' of
                            None \<Rightarrow> None
                          | Some sc \<Rightarrow> Some (truthy sc))))"

text \<open>
  The sources in the order \<open>loadMemory\<close> tries them (relational store, key-value store,
  durable file, primary file), each \<open>None\<close> when it is not configured, missing or
  failing, and otherwise its text; the first text that is not empty is used.
\<close>

fun firstText :: "string option list \<Rightarrow> string option" where
  "firstText [] = None"
| "firstText (None # rest) = firstText rest"
| "firstText (Some t # rest) = (if t = [] then firstText rest else Some t)"

text \<open>An \<open>async\<close> function ends by resolving or by rejecting.\<close>

datatype 'a promise = Resolved 'a | Rejected

text \<open>
  \<open>loadMemory\<close>, returning the value of \<open>globalMemory\<close> afterwards. \<open>dirsOk\<close> says
  whether \<open>ensureDirectories()\<close> succeeds; it is awaited outside the \<open>try\<close>, so its
  failure rejects the call. \<open>parse\<close> is \<open>JSON.parse\<close>, \<open>None\<close> for a \<open>SyntaxError\<close>. Every
  exception raised inside the \<open>try\<close> is caught and logged, and leaves \<open>globalMemory\<close>
  as it is.
\<close>

definition loadMemory ::
  "bool \<Rightarrow> (string \<Rightarrow> json option) \<Rightarrow> string option list \<Rightarrow> json \<Rightarrow> json promise" where
  "loadMemory dirsOk parse sources current =
     (if \<not> dirsOk then Rejected
      else case firstText sources of
             None \<Rightarrow> Resolved current
           | Some memoryStr \<Rightarrow>
               (case parse memoryStr of
                  None \<Rightarrow> Resolved current
                | Some loaded \<Rightarrow>
                    (case hasAllParts loaded of
                       None \<Rightarrow> Resolved current
                     | Some True \<Rightarrow> Resolved loaded
                     | Some False \<Rightarrow> Resolved current)))"

text \<open>The initial \<open>globalMemory\<close> as a JSON value.\<close>

definition defaultMemory :: json where
  "defaultMemory =
     JObject [(''patterns'', JObject []), (''contextPairs'', JArray []),
              (''semanticClusters'', JObject []), (''qualityScores'', JObject []),
              (''stats'', JObject [(''totalMessages'', JNumber 0),
                                   (''totalConversations'', JNumber 0),
                                   (''trainingDataPoints'', JNumber 0),
                                   (''garbageFiltered'', JNumber 0),
                                   (''liveConversationsLearned'', JNumber 0)])]"

text \<open>
  The structural invariant of the specification: \<open>contextPairs\<close> is present and an
  array, \<open>semanticClusters\<close> is present and an object.
\<close>

definition structurallyValid :: "json \<Rightarrow> bool" where
  "structurallyValid loaded \<longleftrightarrow>
     (case getField loaded ''contextPairs'' of
        Some (JsValue (JArray xs)) \<Rightarrow>
          (case getField loaded ''semanticClusters'' of
             Some (JsValue (JObject members)) \<Rightarrow> True
           | _ \<Rightarrow> False)
      | _ \<Rightarrow> False)"

text \<open>What the code asks of a snapshot: the three parts present and truthy.\<close>

definition present :: "json \<Rightarrow> string \<Rightarrow> bool" where
  "present loaded key \<longleftrightarrow> (case getField loaded key of Some v \<Rightarrow> truthy v | None \<Rightarrow> False)"

text \<open>Two snapshots and a parser that knows them.\<close>

definition scalarSnapshot :: json where
  "scalarSnapshot =
     JObject [(''stats'', JNumber 1), (''contextPairs'', JNumber 1), (''semanticClusters'', JNumber 1)]"

definition statlessSnapshot :: json where
  "statlessSnapshot = JObject [(''contextPairs'', JArray []), (''semanticClusters'', JObject [])]"

definition parseSamples :: "string \<Rightarrow> json option" where
  "parseSamples text =
     (if text = ''{\"stats\":1,\"contextPairs\":1,\"semanticClusters\":1}'' then Some scalarSnapshot
      else if text = ''{\"contextPairs\":[],\"semanticClusters\":{}}'' then Some statlessSnapshot
      else if text = ''null'' then Some JNull
      else None)"

section \<open>Saving a snapshot\<close>

datatype level = INFO | WARN | ERROR

text \<open>The places a snapshot is written to, each with the text it holds, if any.\<close>

record storage =
  primaryFile :: "string option"
  primaryTemp :: "string option"
  durableFile :: "string option"
  durableTemp :: "string option"
  relationalRow :: "string option"
  keyValueEntry :: "string option"

text \<open>Which backends are configured (\<open>pgPool\<close>, \<open>REPLIT_DB_URL\<close>).\<close>

record backends =
  hasRelational :: bool
  hasKeyValue :: bool

text \<open>Which operations fail during one save. A failed write or rename leaves its
  target as it was.\<close>

record faults =
  primaryWriteFails :: bool
  primaryRenameFails :: bool
  durableWriteFails :: bool
  durableRenameFails :: bool
  relationalFails :: bool
  keyValueFails :: bool

text \<open>\<open>saveMemoryToPostgres\<close> and \<open>saveMemoryToReplitDB\<close>: each catches its own failure
  and logs a warning, so neither ever rejects.\<close>

definition saveMemoryToPostgres ::
  "backends \<Rightarrow> faults \<Rightarrow> string \<Rightarrow> storage \<Rightarrow> (level \<times> string) list \<times> storage" where
  "saveMemoryToPostgres cfg f dataStr st =
     (if \<not> hasRelational cfg then ([], st)
      else if relationalFails f then ([(WARN, ''Failed to save memory to Postgres'')], st)
      else ([(INFO, ''Memory saved to Postgres'')], st\<lparr>relationalRow := Some dataStr\<rparr>))"

definition saveMemoryToReplitDB ::
  "backends \<Rightarrow> faults \<Rightarrow> string \<Rightarrow> storage \<Rightarrow> (level \<times> string) list \<times> storage" where
  "saveMemoryToReplitDB cfg f dataStr st =
     (if \<not> hasKeyValue cfg then ([], st)
      else if keyValueFails f then ([(WARN, ''Failed to save memory to Replit DB'')], st)
      else ([(INFO, ''Memory saved to Replit DB'')], st\<lparr>keyValueEntry := Some dataStr\<rparr>))"

text \<open>
  \<open>saveMemory\<close>, given the serialised memory \<open>memoryStr\<close>: how the returned promise
  settles, what is logged, and the storage once the two remote saves, which are started
  and not awaited, have finished as well. The four file operations stand in one \<open>try\<close>
  whose \<open>catch\<close> logs an error and throws it again.
\<close>

definition saveMemory ::
  "backends \<Rightarrow> faults \<Rightarrow> string \<Rightarrow> storage \<Rightarrow> unit promise \<times> (level \<times> string) list \<times> storage" where
  "saveMemory cfg f memoryStr st =
     (if primaryWriteFails f then (Rejected, [(ERROR, ''Failed to save memory'')], st)
      else
        let st1 = st\<lparr>primaryTemp := Some memoryStr\<rparr> in
        if primaryRenameFails f then (Rejected, [(ERROR, ''Failed to save memory'')], st1)
        else
          let st2 = st1\<lparr>primaryFile := Some memoryStr, primaryTemp := None\<rparr> in
          if durableWriteFails f then (Rejected, [(ERROR, ''Failed to save memory'')], st2)
          else
            let st3 = st2\<lparr>durableTemp := Some memoryStr\<rparr> in
            if durableRenameFails f then (Rejected, [(ERROR, ''Failed to save memory'')], st3)
            else
              let st4 = st3\<lparr>durableFile := Some memoryStr, durableTemp := None\<rparr>;
                  (log1, st5) = saveMemoryToPostgres cfg f memoryStr st4;
                  (log2, st6) = saveMemoryToReplitDB cfg f memoryStr st5
              in (Resolved (), (INFO, ''Memory saved successfully'') # log1 @ log2, st6))"

definition emptyStorage :: storage where
  "emptyStorage = \<lparr>primaryFile = None, primaryTemp = None, durableFile = None,
                    durableTemp = None, relationalRow = None, keyValueEntry = None\<rparr>"

definition allBackends :: backends where
  "allBackends = \<lparr>hasRelational = True, hasKeyValue = True\<rparr>"

text \<open>Only the write to the durable mirror fails.\<close>

definition mirrorWriteFails :: faults where
  "mirrorWriteFails = \<lparr>primaryWriteFails = False, primaryRenameFails = False,
                       durableWriteFails = True, durableRenameFails = False,
                       relationalFails = False, keyValueFails = False\<rparr>"

section \<open>The save coordinator\<close>

text \<open>
  The state that \<open>queueSave\<close> and \<open>gracefulShutdown\<close> act on. \<open>saveQueue\<close> is a chain of
  promises: each link added by \<open>saveQueue.then(...).catch(...)\<close> runs its save when the
  link before it has settled, and always settles itself. So the chain is described by
  the number of links whose save has not started and by whether the save of the
  current link is in flight.
\<close>

text \<open>
  \<open>immediates\<close>: callbacks registered with \<open>setImmediate\<close> that have not run.
  \<open>waiting\<close>: links of \<open>saveQueue\<close> whose save has not started. \<open>chainSaving\<close>: the
  save of the current link is in flight. \<open>awaiting\<close>: for every run of
  \<open>gracefulShutdown\<close> that stands at \<open>await saveQueue\<close>, the number of links still to
  settle. \<open>directSaving\<close>: saves started by \<open>gracefulShutdown\<close> itself that are in
  flight.
\<close>

record coordinator =
  saveScheduled :: bool
  immediates :: nat
  waiting :: nat
  chainSaving :: bool
  awaiting :: "nat list"
  directSaving :: nat
  exited :: bool

text \<open>
  What the event loop runs, each to completion together with the microtasks it leaves:
  a call of \<open>queueSave\<close> (from a request handler or the interval timer); a callback
  registered with \<open>setImmediate\<close>; the completion of the save of the current link, ok or
  not; a termination signal; the completion of the save that \<open>gracefulShutdown\<close> made
  itself, after which it makes its backup and its synchronous save and exits (the
  model ends the process at that completion).
\<close>

datatype event = QueueSave | Immediate | ChainSaveSettles bool | Signal | DirectSaveSettles bool

definition idle :: coordinator where
  "idle = \<lparr>saveScheduled = False, immediates = 0, waiting = 0, chainSaving = False,
            awaiting = [], directSaving = 0, exited = False\<rparr>"

text \<open>\<open>saveMemory\<close> calls that have started and not settled.\<close>

definition inFlight :: "coordinator \<Rightarrow> nat" where
  "inFlight c = (if chainSaving c then 1 else 0) + directSaving c"

text \<open>The next link runs as soon as the chain is free:
  \<open>saveScheduled = false; await saveMemory()\<close>.\<close>

definition startNext :: "coordinator \<Rightarrow> coordinator" where
  "startNext c =
     (if \<not> chainSaving c \<and> waiting c > 0
      then c\<lparr>waiting := waiting c - 1, saveScheduled := False, chainSaving := True\<rparr>
      else c)"

text \<open>\<open>gracefulShutdown\<close> past its \<open>await saveQueue\<close>: \<open>await saveMemory()\<close>, a save of
  its own, outside the chain; \<open>n\<close> runs of it get there at once.\<close>

definition startDirect :: "nat \<Rightarrow> coordinator \<Rightarrow> coordinator" where
  "startDirect n c = c\<lparr>directSaving := directSaving c + n\<rparr>"

fun step :: "coordinator \<Rightarrow> event \<Rightarrow> coordinator" where
  "step c QueueSave =
     (if exited c \<or> saveScheduled c then c
      else c\<lparr>saveScheduled := True, immediates := immediates c + 1\<rparr>)"
| "step c Immediate =
     (if exited c \<or> immediates c = 0 then c
      else startNext (c\<lparr>immediates := immediates c - 1, waiting := waiting c + 1\<rparr>))"
| "step c (ChainSaveSettles ok) =
     (if exited c \<or> \<not> chainSaving c then c
      else
        let c1 = c\<lparr>chainSaving := False, saveScheduled := (saveScheduled c \<and> ok)\<rparr>;
            resumed = length (filter (\<lambda>n. n \<le> 1) (awaiting c1));
            c2 = startDirect resumed
                   (c1\<lparr>awaiting := map (\<lambda>n. n - 1) (filter (\<lambda>n. n > 1) (awaiting c1))\<rparr>)
        in startNext c2)"
| "step c Signal =
     (if exited c then c
      else
        let links = waiting c + (if chainSaving c then 1 else 0)
        in if links = 0 then startDirect 1 c else c\<lparr>awaiting := awaiting c @ [links]\<rparr>)"
| "step c (DirectSaveSettles ok) =
     (if exited c \<or> directSaving c = 0 then c
      else c\<lparr>directSaving := directSaving c - 1, exited := True\<rparr>)"

definition run :: "event list \<Rightarrow> coordinator \<Rightarrow> coordinator" where
  "run events c = foldl step c events"

section \<open>Facts about the search\<close>

lemma find_None_iff': "find p xs = None \<longleftrightarrow> (\<forall>x\<in>set xs. \<not> p x)"
  by (induction xs) auto

lemma relevance_zero:
  assumes "set keywords \<inter> set (extractKeywords (input e)) = {}"
  shows "relevance keywords e = 0"
proof -
  have "filter (\<lambda>k. k \<in> set (extractKeywords (input e))) keywords = []"
    using assms by (auto simp: filter_empty_conv)
  then show ?thesis by (simp add: relevance_def Let_def)
qed

lemma candidatesFor_Some:
  assumes "Some e \<in> set (candidatesFor keywords cl)"
  shows "\<exists>k xs. cl k = Some xs \<and> e \<in> set xs"
  using assms
  by (auto simp: candidatesFor_def getProp_def split: option.splits if_splits)

lemma candidatesFor_None:
  assumes "None \<in> set (candidatesFor keywords cl)"
  shows "\<exists>k\<in>set keywords. getProp cl k = Inherited"
proof -
  from assms obtain k where k: "k \<in> set keywords"
    and n: "None \<in> set (case getProp cl k of Own xs \<Rightarrow> map Some xs | Inherited \<Rightarrow> [None] | Undefined \<Rightarrow> [])"
    by (auto simp: candidatesFor_def)
  from n have "getProp cl k = Inherited" by (cases "getProp cl k") auto
  with k show ?thesis by blast
qed

lemma hd_sort_key_in: "xs \<noteq> [] \<Longrightarrow> hd (sort_key f xs) \<in> set xs"
proof -
  assume "xs \<noteq> []"
  then have "sort_key f xs \<noteq> []" by (metis length_sort length_0_conv)
  then have "hd (sort_key f xs) \<in> set (sort_key f xs)" by (rule hd_in_set)
  then show ?thesis by simp
qed

lemma searchMemory_Null:
  assumes exact: "\<forall>pair\<in>set (contextPairs m). input pair \<noteq> toLowerCase inp"
    and nothrow: "\<forall>k\<in>set (extractKeywords inp). getProp (semanticClusters m) k \<noteq> Inherited"
    and zero: "\<forall>k xs. semanticClusters m k = Some xs \<longrightarrow>
                 (\<forall>e\<in>set xs. set (extractKeywords inp) \<inter> set (extractKeywords (input e)) = {})"
  shows "searchMemory inp m = Null"
proof -
  let ?kw = "extractKeywords inp"
  let ?cs = "candidatesFor ?kw (semanticClusters m)"
  let ?scored = "map (\<lambda>c. (the c, relevance ?kw (the c))) ?cs"
  have nofind: "find (\<lambda>pair. input pair = toLowerCase inp) (contextPairs m) = None"
    using exact by (simp add: find_None_iff')
  have noNone: "None \<notin> set ?cs"
    using nothrow candidatesFor_None by blast
  have rel0: "snd p = 0" if "p \<in> set ?scored" for p
  proof -
    from that obtain c where c: "c \<in> set ?cs" and p: "p = (the c, relevance ?kw (the c))"
      by auto
    from c noNone have "c \<noteq> None" by metis
    then obtain e where e: "c = Some e" by (cases c) auto
    with c candidatesFor_Some obtain k xs where "semanticClusters m k = Some xs" "e \<in> set xs"
      by blast
    with zero have "set ?kw \<inter> set (extractKeywords (input e)) = {}" by blast
    then show ?thesis using p e by (simp add: relevance_zero)
  qed
  have "\<not> snd (hd (sort_key (\<lambda>(c, rel). - rel) ?scored)) > 30" if "?cs \<noteq> []"
  proof -
    from that have "?scored \<noteq> []" by simp
    then have "hd (sort_key (\<lambda>(c, rel). - rel) ?scored) \<in> set ?scored"
      by (rule hd_sort_key_in)
    then show ?thesis using rel0 by fastforce
  qed
  then show ?thesis
    using nofind noNone by (auto simp: searchMemory_def Let_def)
qed

section \<open>Facts about learning\<close>

lemma findIndex_None_iff: "findIndex p xs = None \<longleftrightarrow> (\<forall>x\<in>set xs. \<not> p x)"
  by (induction xs) auto

lemma findIndex_Some:
  "findIndex p xs = Some i \<Longrightarrow> i < length xs \<and> p (xs ! i) \<and> (\<forall>j<i. \<not> p (xs ! j))"
proof (induction xs arbitrary: i)
  case Nil
  then show ?case by simp
next
  case (Cons x xs)
  show ?case
  proof (cases "p x")
    case True
    with Cons.prems show ?thesis by simp
  next
    case False
    with Cons.prems obtain i' where i': "findIndex p xs = Some i'" "i = Suc i'"
      by auto
    from Cons.IH[OF i'(1)] False i'(2) show ?thesis
      by (auto simp: nth_Cons split: nat.splits)
  qed
qed

lemma length_upsert_le: "length (upsert il r q now xs) \<le> Suc (length xs)"
  by (simp add: upsert_def Let_def split: option.splits)

lemma length_upsert_ge: "length xs \<le> length (upsert il r q now xs)"
  by (simp add: upsert_def Let_def split: option.splits)

lemma length_sortByScore [simp]: "length (sortByScore xs) = length xs"
  by (simp add: sortByScore_def)

lemma set_sortByScore [simp]: "set (sortByScore xs) = set xs"
  by (simp add: sortByScore_def)

lemma mset_sortByScore [simp]: "mset (sortByScore xs) = mset xs"
  by (simp add: sortByScore_def)

lemma learnCluster_eq: "learnCluster il r q now xs = take 20 (sortByScore (upsert il r q now xs))"
  by (simp add: learnCluster_def Let_def)

lemma length_learnCluster: "length (learnCluster il r q now xs) \<le> 20"
  by (simp add: learnCluster_eq)

lemma length_learnPairs: "length ps \<le> 1000 \<Longrightarrow> length (learnPairs il r q now ps) \<le> 1000"
  by (simp add: learnPairs_def Let_def)

lemma sortByScore_descending:
  assumes "i \<le> j" "j < length xs"
  shows "score (sortByScore xs ! j) \<le> score (sortByScore xs ! i)"
proof -
  have "sorted (map (\<lambda>e. - score e) (sortByScore xs))"
    by (simp add: sortByScore_def)
  with assms have "map (\<lambda>e. - score e) (sortByScore xs) ! i \<le> map (\<lambda>e. - score e) (sortByScore xs) ! j"
    by (intro sorted_nth_mono) auto
  with assms show ?thesis by simp
qed

lemma take_drop_scores:
  assumes "kept \<in> set (take n (sortByScore xs))" "ev \<in> set (drop n (sortByScore xs))"
  shows "score ev \<le> score kept"
proof -
  let ?S = "sortByScore xs"
  from assms(1) obtain i where i: "i < length (take n ?S)" "take n ?S ! i = kept"
    by (auto simp: in_set_conv_nth)
  from assms(2) obtain j where j: "j < length (drop n ?S)" "drop n ?S ! j = ev"
    by (auto simp: in_set_conv_nth)
  from i have i': "i < n" "i < length xs" "?S ! i = kept" by auto
  from j have j': "n + j < length xs" "?S ! (n + j) = ev" by auto
  from i' j' sortByScore_descending[of i "n + j" xs] show ?thesis by auto
qed

lemma learnClusters_caps:
  assumes "\<forall>k xs. cl k = Some xs \<longrightarrow> length xs \<le> 20"
  shows "\<forall>k xs. snd (learnClusters ks il r q now cl) k = Some xs \<longrightarrow> length xs \<le> 20"
  using assms
proof (induction ks arbitrary: cl)
  case Nil
  then show ?case by simp
next
  case (Cons k ks)
  have step: "\<forall>k' xs. (cl(k \<mapsto> learnCluster il r q now ys)) k' = Some xs \<longrightarrow> length xs \<le> 20" for ys
    using Cons.prems length_learnCluster by auto
  have IH': "\<forall>k' xs. snd (learnClusters ks il r q now (cl(k \<mapsto> learnCluster il r q now ys))) k' = Some xs
               \<longrightarrow> length xs \<le> 20" for ys
    by (rule Cons.IH[OF step])
  show ?case
  proof (cases "getProp cl k")
    case Undefined
    then show ?thesis using IH'[of "[]"] by (simp del: fun_upd_apply)
  next
    case (Own xs)
    then show ?thesis using IH'[of xs] by (simp del: fun_upd_apply)
  next
    case Inherited
    then show ?thesis using Cons.prems by simp
  qed
qed

lemma learnPattern_withinCaps:
  assumes "withinCaps m"
  shows "withinCaps (snd (learnPattern inp r q now m))"
proof -
  let ?res = "learnClusters (extractKeywords inp) (toLowerCase inp) r q now (semanticClusters m)"
  from assms have cl: "\<forall>k xs. semanticClusters m k = Some xs \<longrightarrow> length xs \<le> 20"
    and ps: "length (contextPairs m) \<le> 1000"
    by (auto simp: withinCaps_def)
  have c: "\<forall>k xs. snd ?res k = Some xs \<longrightarrow> length xs \<le> 20"
    by (rule learnClusters_caps[OF cl])
  obtain oc cl' where res: "?res = (oc, cl')" by (cases ?res)
  with c have c': "\<forall>k xs. cl' k = Some xs \<longrightarrow> length xs \<le> 20" by simp
  show ?thesis
  proof (cases oc)
    case Normal
    with res c' ps length_learnPairs[OF ps] show ?thesis
      by (simp add: learnPattern_def Let_def withinCaps_def)
  next
    case TypeError
    with res c' ps show ?thesis
      by (simp add: learnPattern_def Let_def withinCaps_def)
  qed
qed

lemma withinCaps_empty: "withinCaps emptyMemory"
  by (simp add: withinCaps_def emptyMemory_def)

lemma learnAll_withinCaps: "withinCaps m \<Longrightarrow> withinCaps (learnAll calls m)"
proof (induction calls arbitrary: m)
  case Nil
  then show ?case by (simp add: learnAll_def)
next
  case (Cons c calls)
  obtain inp r q now where c: "c = (inp, r, q, now)" by (cases c) auto
  have "withinCaps (learnCall m c)"
    using Cons.prems by (simp add: c learnCall_def learnPattern_withinCaps)
  from Cons.IH[OF this] show ?case by (simp add: learnAll_def)
qed

section \<open>The search leaves the knowledge base alone\<close>

text \<open>
  C10. For every input and every state, \<open>findBestResponse\<close> leaves the knowledge base
  (\<open>contextPairs\<close>, \<open>semanticClusters\<close>, \<open>qualityScores\<close>, \<open>stats\<close>) exactly as it was,
  whether it answers from the cache, finds a response, finds none, or raises. What it
  does change is the response cache and the cache hit and miss counters.
\<close>

theorem findBestResponse_keeps_memory:
  "globalMemory (snd (findBestResponse inp now s)) = globalMemory s"
  by (simp add: findBestResponse_def Let_def split: prod.splits found.splits)

section \<open>Evaluating concrete calls\<close>

lemmas text_defs = extractKeywords_def toLowerCase_def lowerChar_def isUpper_def isSpace_def
  isLowerAlnum_def stopWords_def

lemmas learn_defs = learnPattern_def learnCluster_def learnPairs_def upsert_def sortByScore_def
  newEntry_def reinforce_def confidenceOr1_def olderThan30Days_def score_def getProp_def setProp_def
  objectPrototypeKeys_def emptyMemory_def emptyStats_def Let_def

text \<open>
  C5 (amended). A query that finds no live cache entry, equals no \<open>contextPairs\<close> input
  once lower-cased, has no keyword that the cluster object merely inherits, and shares
  no keyword with any stored pattern's input gets \<open>null\<close> from \<open>findBestResponse\<close>.
\<close>

theorem zero_overlap_no_match:
  assumes cache: "fst (cacheGet inp now (responseCache s)) = None \<or>
                  fst (cacheGet inp now (responseCache s)) = Some []"
    and exact: "\<forall>pair\<in>set (contextPairs (globalMemory s)). input pair \<noteq> toLowerCase inp"
    and own: "\<forall>k\<in>set (extractKeywords inp). getProp (semanticClusters (globalMemory s)) k \<noteq> Inherited"
    and zero: "sharesNoKeyword inp (globalMemory s)"
  shows "fst (findBestResponse inp now s) = Null"
proof -
  obtain cached c where cg: "cacheGet inp now (responseCache s) = (cached, c)"
    by (cases "cacheGet inp now (responseCache s)")
  with cache have miss: "\<not> (cached \<noteq> None \<and> cached \<noteq> Some [])" by auto
  have "\<forall>k xs. semanticClusters (globalMemory s) k = Some xs \<longrightarrow>
          (\<forall>e\<in>set xs. set (extractKeywords inp) \<inter> set (extractKeywords (input e)) = {})"
    using zero unfolding sharesNoKeyword_def storedPattern_def by blast
  with exact own have "searchMemory inp (globalMemory s) = Null"
    by (intro searchMemory_Null) auto
  with cg miss show ?thesis
    by (simp add: findBestResponse_def Let_def)
qed

text \<open>
  As stated, without the exact-match proviso, the property fails: \<open>how are you\<close> consists
  of stop words only, so it shares no keyword with anything, yet once it was learnt at
  quality 70 the exact-match step returns its response.
\<close>

theorem zero_overlap_exact_match_counterexample:
  "extractKeywords ''how are you'' = [] \<and>
   fst (findBestResponse ''how are you'' 1
         (serverWith (snd (learnPattern ''how are you'' ''good, you?'' 70 0 emptyMemory))))
     = Found ''good, you?''"
  by (simp add: text_defs learn_defs serverWith_def findBestResponse_def cacheGet_def cacheKey_def trim_def
      searchMemory_def Let_def)

text \<open>The memory after one call on the empty store.\<close>

lemma ex_store: "snd (learnPattern ''hello big world'' ''hi there'' 70 0 emptyMemory) =
   \<lparr>contextPairs = [newEntry ''hello big world'' ''hi there'' 70 0],
    semanticClusters = [''hello'' \<mapsto> [newEntry ''hello big world'' ''hi there'' 70 0],
       ''big'' \<mapsto> [newEntry ''hello big world'' ''hi there'' 70 0],
       ''world'' \<mapsto> [newEntry ''hello big world'' ''hi there'' 70 0]],
    qualityScores = [''hello big world'' \<mapsto> 70], stats = emptyStats\<rparr>"
  by (simp add: text_defs learn_defs)

theorem zero_overlap_no_match_witness:
  "fst (findBestResponse ''something else'' 1
         (serverWith (snd (learnPattern ''hello big world'' ''hi there'' 70 0 emptyMemory)))) = Null"
proof -
  let ?m = "snd (learnPattern ''hello big world'' ''hi there'' 70 0 emptyMemory)"
  have kw: "extractKeywords ''something else'' = [''something'', ''else'']"
    by (simp add: text_defs)
  have kw2: "extractKeywords ''hello big world'' = [''hello'', ''big'', ''world'']"
    by (simp add: text_defs)
  have 1: "fst (cacheGet ''something else'' 1 (responseCache (serverWith ?m))) = None"
    by (simp add: serverWith_def cacheGet_def)
  have 2: "\<forall>pair\<in>set (contextPairs (globalMemory (serverWith ?m))).
             input pair \<noteq> toLowerCase ''something else''"
    by (simp add: serverWith_def ex_store newEntry_def toLowerCase_def lowerChar_def isUpper_def)
  have 3: "\<forall>k\<in>set (extractKeywords ''something else'').
             getProp (semanticClusters (globalMemory (serverWith ?m))) k \<noteq> Inherited"
    by (simp add: kw serverWith_def ex_store getProp_def objectPrototypeKeys_def)
  have 4: "sharesNoKeyword ''something else'' (globalMemory (serverWith ?m))"
    unfolding sharesNoKeyword_def storedPattern_def
    by (auto simp: serverWith_def ex_store kw kw2 newEntry_def split: if_splits)
  show ?thesis
    using zero_overlap_no_match[OF disjI1[OF 1] 2 3 4] .
qed

section \<open>The keyword loop\<close>

lemma distinct_setInsertAll: "distinct seen \<Longrightarrow> distinct (setInsertAll seen xs)"
  by (induction xs arbitrary: seen) auto

lemma distinct_extractKeywords: "distinct (extractKeywords text)"
  by (simp add: extractKeywords_def Let_def distinct_setInsertAll)

lemma getProp_upd_other: "k' \<noteq> k \<Longrightarrow> getProp (cl(k \<mapsto> v)) k' = getProp cl k'"
  by (simp add: getProp_def)

lemma getProp_Own_iff: "getProp cl k = Own xs \<longleftrightarrow> cl k = Some xs"
  by (auto simp: getProp_def split: option.splits)

lemma getProp_Undefined_None: "getProp cl k = Undefined \<Longrightarrow> cl k = None"
  by (auto simp: getProp_def split: option.splits if_splits)

lemma getProp_Inherited_None: "getProp cl k = Inherited \<Longrightarrow> cl k = None"
  by (auto simp: getProp_def split: option.splits if_splits)

text \<open>One step of the \<open>forEach\<close> loop, when it does not raise.\<close>

lemma learnClusters_step:
  assumes "getProp cl k \<noteq> Inherited"
  shows "learnClusters (k # ks) il r q now cl =
         learnClusters ks il r q now
           (cl(k \<mapsto> learnCluster il r q now (case cl k of None \<Rightarrow> [] | Some xs \<Rightarrow> xs)))"
proof (cases "getProp cl k")
  case Undefined
  then show ?thesis by (simp add: getProp_Undefined_None)
next
  case (Own xs)
  then have "cl k = Some xs" by (simp add: getProp_Own_iff)
  with Own show ?thesis by simp
next
  case Inherited
  with assms show ?thesis by simp
qed

lemma learnClusters_untouched:
  assumes "k \<notin> set ks"
  shows "snd (learnClusters ks il r q now cl) k = cl k"
  using assms
proof (induction ks arbitrary: cl)
  case Nil
  then show ?case by simp
next
  case (Cons k' ks)
  then have ne: "k \<noteq> k'" and notin: "k \<notin> set ks" by auto
  show ?case
  proof (cases "getProp cl k' = Inherited")
    case True
    then show ?thesis by simp
  next
    case False
    have "snd (learnClusters (k' # ks) il r q now cl) k =
          (cl(k' \<mapsto> learnCluster il r q now (case cl k' of None \<Rightarrow> [] | Some xs \<Rightarrow> xs))) k"
      unfolding learnClusters_step[OF False] by (rule Cons.IH[OF notin])
    with ne show ?thesis by simp
  qed
qed

text \<open>Every cluster is either left as it was or replaced by the learnt one.\<close>

lemma learnClusters_each:
  assumes "distinct ks"
  shows "snd (learnClusters ks il r q now cl) k = cl k \<or>
         snd (learnClusters ks il r q now cl) k =
           Some (learnCluster il r q now (case cl k of None \<Rightarrow> [] | Some xs \<Rightarrow> xs))"
  using assms
proof (induction ks arbitrary: cl)
  case Nil
  then show ?case by simp
next
  case (Cons k' ks)
  then have notin: "k' \<notin> set ks" and d: "distinct ks" by auto
  show ?case
  proof (cases "getProp cl k' = Inherited")
    case True
    then show ?thesis by simp
  next
    case False
    let ?cl' = "cl(k' \<mapsto> learnCluster il r q now (case cl k' of None \<Rightarrow> [] | Some xs \<Rightarrow> xs))"
    have eq: "learnClusters (k' # ks) il r q now cl = learnClusters ks il r q now ?cl'"
      by (rule learnClusters_step[OF False])
    show ?thesis
    proof (cases "k = k'")
      case True
      have "snd (learnClusters ks il r q now ?cl') k' = ?cl' k'"
        by (rule learnClusters_untouched[OF notin])
      then have "snd (learnClusters (k' # ks) il r q now cl) k' =
                 Some (learnCluster il r q now (case cl k' of None \<Rightarrow> [] | Some xs \<Rightarrow> xs))"
        unfolding eq by simp
      with True show ?thesis by blast
    next
      case False
      then have c: "?cl' k = cl k" by simp
      show ?thesis
        unfolding eq using Cons.IH[OF d, of ?cl'] unfolding c .
    qed
  qed
qed

text \<open>When no keyword is merely inherited, the loop runs to its end.\<close>

lemma learnClusters_Normal:
  assumes "distinct ks" "\<forall>k\<in>set ks. getProp cl k \<noteq> Inherited"
  shows "learnClusters ks il r q now cl =
         (Normal, \<lambda>k. if k \<in> set ks
                       then Some (learnCluster il r q now (case cl k of None \<Rightarrow> [] | Some xs \<Rightarrow> xs))
                       else cl k)"
  using assms
proof (induction ks arbitrary: cl)
  case Nil
  then show ?case by simp
next
  case (Cons k' ks)
  then have notin: "k' \<notin> set ks" and d: "distinct ks"
    and ok: "getProp cl k' \<noteq> Inherited" and oks: "\<forall>k\<in>set ks. getProp cl k \<noteq> Inherited"
    by auto
  let ?cl' = "cl(k' \<mapsto> learnCluster il r q now (case cl k' of None \<Rightarrow> [] | Some xs \<Rightarrow> xs))"
  have "\<forall>k\<in>set ks. getProp ?cl' k \<noteq> Inherited"
  proof
    fix k assume k: "k \<in> set ks"
    with notin have "k \<noteq> k'" by auto
    then have "getProp ?cl' k = getProp cl k" by (rule getProp_upd_other)
    with oks k show "getProp ?cl' k \<noteq> Inherited" by simp
  qed
  from Cons.IH[OF d this]
  have "learnClusters ks il r q now ?cl' =
        (Normal, \<lambda>k. if k \<in> set ks
                      then Some (learnCluster il r q now (case ?cl' k of None \<Rightarrow> [] | Some xs \<Rightarrow> xs))
                      else ?cl' k)" .
  moreover have "(\<lambda>k. if k \<in> set ks
                      then Some (learnCluster il r q now (case ?cl' k of None \<Rightarrow> [] | Some xs \<Rightarrow> xs))
                      else ?cl' k) =
                 (\<lambda>k. if k \<in> set (k' # ks)
                       then Some (learnCluster il r q now (case cl k of None \<Rightarrow> [] | Some xs \<Rightarrow> xs))
                       else cl k)"
    using notin by (auto simp: fun_eq_iff)
  ultimately show ?case
    unfolding learnClusters_step[OF ok] by simp
qed

text \<open>The loop in full: which clusters it rewrites and how it ends.\<close>

lemma learnClusters_run:
  assumes "distinct ks"
  shows "learnClusters ks il r q now cl =
         (if \<forall>k\<in>set ks. getProp cl k \<noteq> Inherited then Normal else TypeError,
          \<lambda>k. if k \<in> set (takeWhile (\<lambda>k. getProp cl k \<noteq> Inherited) ks)
               then Some (learnCluster il r q now (case cl k of None \<Rightarrow> [] | Some xs \<Rightarrow> xs))
               else cl k)"
  using assms
proof (induction ks arbitrary: cl)
  case Nil
  then show ?case by simp
next
  case (Cons k' ks)
  then have notin: "k' \<notin> set ks" and d: "distinct ks" by auto
  show ?case
  proof (cases "getProp cl k' = Inherited")
    case True
    then show ?thesis by simp
  next
    case False
    let ?cl' = "cl(k' \<mapsto> learnCluster il r q now (case cl k' of None \<Rightarrow> [] | Some xs \<Rightarrow> xs))"
    have same: "getProp ?cl' k = getProp cl k" if "k \<in> set ks" for k
    proof -
      from that notin have "k \<noteq> k'" by auto
      then show ?thesis by (rule getProp_upd_other)
    qed
    then have all: "(\<forall>k\<in>set ks. getProp ?cl' k \<noteq> Inherited) \<longleftrightarrow>
                    (\<forall>k\<in>set ks. getProp cl k \<noteq> Inherited)"
      by simp
    have tw: "takeWhile (\<lambda>k. getProp ?cl' k \<noteq> Inherited) ks =
              takeWhile (\<lambda>k. getProp cl k \<noteq> Inherited) ks"
      by (rule takeWhile_cong) (simp_all add: same)
    have notk': "k' \<notin> set (takeWhile (\<lambda>k. getProp cl k \<noteq> Inherited) ks)"
      using notin by (auto dest: set_takeWhileD)
    have fn: "(\<lambda>k. if k \<in> set (takeWhile (\<lambda>k. getProp cl k \<noteq> Inherited) ks)
                    then Some (learnCluster il r q now (case ?cl' k of None \<Rightarrow> [] | Some xs \<Rightarrow> xs))
                    else ?cl' k) =
              (\<lambda>k. if k \<in> set (takeWhile (\<lambda>k. getProp cl k \<noteq> Inherited) (k' # ks))
                    then Some (learnCluster il r q now (case cl k of None \<Rightarrow> [] | Some xs \<Rightarrow> xs))
                    else cl k)"
      using False notk' by (auto simp: fun_eq_iff)
    have "learnClusters (k' # ks) il r q now cl = learnClusters ks il r q now ?cl'"
      by (rule learnClusters_step[OF False])
    also have "\<dots> =
         (if \<forall>k\<in>set ks. getProp ?cl' k \<noteq> Inherited then Normal else TypeError,
          \<lambda>k. if k \<in> set (takeWhile (\<lambda>k. getProp ?cl' k \<noteq> Inherited) ks)
               then Some (learnCluster il r q now (case ?cl' k of None \<Rightarrow> [] | Some xs \<Rightarrow> xs))
               else ?cl' k)"
      by (rule Cons.IH[OF d])
    also have "\<dots> =
         (if \<forall>k\<in>set (k' # ks). getProp cl k \<noteq> Inherited then Normal else TypeError,
          \<lambda>k. if k \<in> set (takeWhile (\<lambda>k. getProp cl k \<noteq> Inherited) (k' # ks))
               then Some (learnCluster il r q now (case cl k of None \<Rightarrow> [] | Some xs \<Rightarrow> xs))
               else cl k)"
      unfolding tw all fn using False by simp
    finally show ?thesis .
  qed
qed

section \<open>Confidence never drops below one\<close>

lemma score_confident: "confidence e \<ge> 1 \<Longrightarrow> score e = quality e * confidence e"
  by (simp add: score_def confidenceOr1_def)

lemma confident_reinforce: "confidence e \<ge> 1 \<Longrightarrow> confidence (reinforce e now) \<ge> 1"
  by (simp add: reinforce_def confidenceOr1_def)

lemma confident_upsert:
  assumes "confident xs"
  shows "confident (upsert il r q now xs)"
proof -
  have upd: "confident (xs[i := e])" if "confidence e \<ge> 1" for i e
    using assms that unfolding confident_def by (auto dest!: set_update_subset_insert[THEN subsetD])
  have new: "confidence (newEntry il r q now) \<ge> 1"
    by (simp add: newEntry_def)
  show ?thesis
  proof (cases "findIndex (\<lambda>item. input item = il) xs")
    case None
    then show ?thesis
      using assms new by (simp add: upsert_def confident_def)
  next
    case (Some i)
    from findIndex_Some[OF Some] have "xs ! i \<in> set xs" by simp
    with assms have "confidence (xs ! i) \<ge> 1" by (simp add: confident_def)
    then have "confidence (reinforce (xs ! i) now) \<ge> 1" by (rule confident_reinforce)
    with Some assms new show ?thesis
      by (simp add: upsert_def Let_def upd)
  qed
qed

lemma confident_sortByScore: "confident (sortByScore xs) = confident xs"
  by (simp add: confident_def)

lemma confident_take: "confident xs \<Longrightarrow> confident (take n xs)"
  by (auto simp: confident_def dest: in_set_takeD)

lemma confident_learnCluster: "confident xs \<Longrightarrow> confident (learnCluster il r q now xs)"
  by (simp add: learnCluster_eq confident_take confident_sortByScore confident_upsert)

lemma confident_learnPairs: "confident ps \<Longrightarrow> confident (learnPairs il r q now ps)"
  by (simp add: learnPairs_def Let_def confident_take confident_sortByScore confident_upsert)

lemma confident_clusterOf: "confidentMemory m \<Longrightarrow> confident (clusterOf m k)"
  by (cases "semanticClusters m k") (auto simp: confidentMemory_def clusterOf_def confident_def)

lemma learnPattern_clusters_each:
  "semanticClusters (snd (learnPattern inp r q now m)) k = semanticClusters m k \<or>
   semanticClusters (snd (learnPattern inp r q now m)) k =
     Some (learnCluster (toLowerCase inp) r q now (clusterOf m k))"
proof -
  let ?res = "learnClusters (extractKeywords inp) (toLowerCase inp) r q now (semanticClusters m)"
  have sc: "semanticClusters (snd (learnPattern inp r q now m)) = snd ?res"
    by (cases ?res) (auto simp: learnPattern_def Let_def split: outcome.splits)
  show ?thesis
    unfolding sc clusterOf_def
    by (rule learnClusters_each[OF distinct_extractKeywords])
qed

lemma learnPattern_pairs_each:
  "contextPairs (snd (learnPattern inp r q now m)) = contextPairs m \<or>
   contextPairs (snd (learnPattern inp r q now m)) =
     learnPairs (toLowerCase inp) r q now (contextPairs m)"
proof -
  let ?res = "learnClusters (extractKeywords inp) (toLowerCase inp) r q now (semanticClusters m)"
  show ?thesis
    by (cases ?res) (auto simp: learnPattern_def Let_def split: outcome.splits)
qed

lemma learnPattern_confident:
  assumes "confidentMemory m"
  shows "confidentMemory (snd (learnPattern inp r q now m))"
proof -
  let ?m' = "snd (learnPattern inp r q now m)"
  have "confident xs" if "semanticClusters ?m' k = Some xs" for k xs
  proof -
    from learnPattern_clusters_each[of inp r q now m k] that
    have "semanticClusters m k = Some xs \<or>
          xs = learnCluster (toLowerCase inp) r q now (clusterOf m k)"
      by auto
    then show ?thesis
      using assms confident_clusterOf[OF assms, of k]
      by (auto simp: confidentMemory_def confident_learnCluster)
  qed
  moreover have "confident (contextPairs ?m')"
    using learnPattern_pairs_each[of inp r q now m] assms
    by (auto simp: confidentMemory_def confident_learnPairs)
  ultimately show ?thesis by (simp add: confidentMemory_def)
qed

lemma confidentMemory_empty: "confidentMemory emptyMemory"
  by (simp add: confidentMemory_def emptyMemory_def confident_def)

lemma learnAll_confident: "confidentMemory m \<Longrightarrow> confidentMemory (learnAll calls m)"
proof (induction calls arbitrary: m)
  case Nil
  then show ?case by (simp add: learnAll_def)
next
  case (Cons c calls)
  obtain inp r q now where c: "c = (inp, r, q, now)" by (cases c) auto
  have "confidentMemory (learnCall m c)"
    using Cons.prems by (simp add: c learnCall_def learnPattern_confident)
  from Cons.IH[OF this] show ?case by (simp add: learnAll_def)
qed

section \<open>Caps and eviction\<close>

lemma lowestEvicted_sortByScore:
  assumes "confident xs"
  shows "lowestEvicted cap (sortByScore xs)"
  unfolding lowestEvicted_def
proof (intro ballI)
  fix kept evicted
  assume k: "kept \<in> set (take cap (sortByScore xs))"
    and e: "evicted \<in> set (drop cap (sortByScore xs))"
  from k have "kept \<in> set xs" by (auto dest: in_set_takeD)
  with assms have ck: "confidence kept \<ge> 1" by (simp add: confident_def)
  from e have "evicted \<in> set xs" by (auto dest: in_set_dropD)
  with assms have ce: "confidence evicted \<ge> 1" by (simp add: confident_def)
  from take_drop_scores[OF k e] show "quality evicted * confidence evicted \<le> quality kept * confidence kept"
    by (simp add: score_confident[OF ck] score_confident[OF ce])
qed

text \<open>A call in full: its outcome, the clusters and \<open>contextPairs\<close> afterwards.\<close>

lemma learnPattern_run:
  "fst (learnPattern inp r q now m) =
     (if processedKeywords m inp = extractKeywords inp then Normal else TypeError)"
  "semanticClusters (snd (learnPattern inp r q now m)) k =
     (if k \<in> set (processedKeywords m inp)
      then Some (learnCluster (toLowerCase inp) r q now (clusterOf m k))
      else semanticClusters m k)"
  "contextPairs (snd (learnPattern inp r q now m)) =
     (if processedKeywords m inp = extractKeywords inp \<and> q \<ge> 60
      then learnPairs (toLowerCase inp) r q now (contextPairs m)
      else contextPairs m)"
proof -
  let ?ks = "extractKeywords inp"
  have all: "(\<forall>k\<in>set ?ks. getProp (semanticClusters m) k \<noteq> Inherited) \<longleftrightarrow>
             processedKeywords m inp = ?ks"
    by (simp add: processedKeywords_def takeWhile_eq_all_conv)
  note run = learnClusters_run[OF distinct_extractKeywords, of inp "toLowerCase inp" r q now
      "semanticClusters m", unfolded all, folded processedKeywords_def]
  show "fst (learnPattern inp r q now m) =
     (if processedKeywords m inp = extractKeywords inp then Normal else TypeError)"
    by (simp add: learnPattern_def Let_def run)
  show "semanticClusters (snd (learnPattern inp r q now m)) k =
     (if k \<in> set (processedKeywords m inp)
      then Some (learnCluster (toLowerCase inp) r q now (clusterOf m k))
      else semanticClusters m k)"
    by (simp add: learnPattern_def Let_def run clusterOf_def)
  show "contextPairs (snd (learnPattern inp r q now m)) =
     (if processedKeywords m inp = extractKeywords inp \<and> q \<ge> 60
      then learnPairs (toLowerCase inp) r q now (contextPairs m)
      else contextPairs m)"
    by (simp add: learnPattern_def Let_def run)
qed

text \<open>
  C3. Start from the empty store and make any sequence of \<open>learnPattern\<close> calls. After
  the sequence (hence after each call of it) every cluster holds at most 20 entries and
  \<open>contextPairs\<close> at most 1000. One more call makes the cluster of every keyword it gets
  through (all keywords of the input, unless the call raises) the first 20 entries of that
  cluster's updated list sorted by score, and leaves every other cluster as it is. When
  the call gets through all its keywords and its quality is at least 60,
  \<open>contextPairs\<close> becomes its updated list, cut to the first 1000 entries of that list
  sorted by score if it is longer than 1000; otherwise \<open>contextPairs\<close> stays as it is.
  In those sorted lists, whatever lies beyond the cap has a \<open>quality * confidence\<close> no
  higher than anything within it.
\<close>

theorem caps_hold_lowest_evicted:
  fixes calls :: "call list" and inp resp k :: string and q now :: int
  defines "m \<equiv> learnAll calls emptyMemory"
  defines "m' \<equiv> learnCall m (inp, resp, q, now)"
  defines "cluster \<equiv> sortByScore (upsert (toLowerCase inp) resp q now (clusterOf m k))"
  defines "pairs \<equiv> upsert (toLowerCase inp) resp q now (contextPairs m)"
  shows "withinCaps m \<and>
         semanticClusters m' k =
           (if k \<in> set (processedKeywords m inp) then Some (take 20 cluster)
            else semanticClusters m k) \<and>
         lowestEvicted 20 cluster \<and>
         contextPairs m' =
           (if processedKeywords m inp = extractKeywords inp \<and> q \<ge> 60
            then (if length pairs > 1000 then take 1000 (sortByScore pairs) else pairs)
            else contextPairs m) \<and>
         lowestEvicted 1000 (sortByScore pairs)"
proof -
  have caps: "withinCaps m"
    unfolding m_def by (rule learnAll_withinCaps[OF withinCaps_empty])
  have conf: "confidentMemory m"
    unfolding m_def by (rule learnAll_confident[OF confidentMemory_empty])
  have m': "m' = snd (learnPattern inp resp q now m)"
    by (simp add: m'_def learnCall_def)
  have "confident (upsert (toLowerCase inp) resp q now (clusterOf m k))"
    by (rule confident_upsert[OF confident_clusterOf[OF conf]])
  then have ev1: "lowestEvicted 20 cluster"
    unfolding cluster_def by (rule lowestEvicted_sortByScore)
  have "confident pairs"
    unfolding pairs_def using conf by (auto simp: confidentMemory_def intro: confident_upsert)
  then have ev2: "lowestEvicted 1000 (sortByScore pairs)"
    by (rule lowestEvicted_sortByScore)
  have c: "semanticClusters m' k =
           (if k \<in> set (processedKeywords m inp) then Some (take 20 cluster)
            else semanticClusters m k)"
    unfolding m' cluster_def by (simp add: learnPattern_run(2) learnCluster_eq)
  have p: "contextPairs m' =
           (if processedKeywords m inp = extractKeywords inp \<and> q \<ge> 60
            then (if length pairs > 1000 then take 1000 (sortByScore pairs) else pairs)
            else contextPairs m)"
    unfolding m' pairs_def by (simp add: learnPattern_run(3) learnPairs_def Let_def)
  from caps c p ev1 ev2 show ?thesis by simp
qed

section \<open>One entry per input\<close>

lemma learnPattern_Normal:
  assumes "\<forall>k\<in>set (extractKeywords inp). getProp (semanticClusters m) k \<noteq> Inherited"
  shows "learnPattern inp r q now m =
         (Normal,
          m\<lparr>semanticClusters :=
              (\<lambda>k. if k \<in> set (extractKeywords inp)
                   then Some (learnCluster (toLowerCase inp) r q now (clusterOf m k))
                   else semanticClusters m k),
            contextPairs :=
              (if q \<ge> 60 then learnPairs (toLowerCase inp) r q now (contextPairs m)
               else contextPairs m),
            qualityScores := setProp (qualityScores m) (toLowerCase inp) q\<rparr>)"
  unfolding learnPattern_def Let_def clusterOf_def
  by (simp add: learnClusters_Normal[OF distinct_extractKeywords assms])

lemma filter_single_split:
  assumes "filter P xs = [x]"
  shows "\<exists>i. i < length xs \<and> xs ! i = x \<and> filter P (take i xs) = [] \<and> filter P (drop (Suc i) xs) = []"
proof -
  from assms obtain us vs where xs: "xs = us @ x # vs" and us: "\<forall>u\<in>set us. \<not> P u"
    and px: "P x" and vs: "filter P vs = []"
    by (auto simp: filter_eq_Cons_iff)
  have "length us < length xs" "xs ! length us = x" "take (length us) xs = us"
       "drop (Suc (length us)) xs = vs"
    by (simp_all add: xs)
  with us vs show ?thesis by (metis filter_False)
qed

lemma entriesFor_findIndex:
  assumes "entriesFor il xs = [e]"
  shows "\<exists>i. findIndex (\<lambda>item. input item = il) xs = Some i \<and> i < length xs \<and> xs ! i = e \<and>
             entriesFor il (take i xs) = [] \<and> entriesFor il (drop (Suc i) xs) = []"
proof -
  from assms have "e \<in> set (filter (\<lambda>e. input e = il) xs)" by (simp add: entriesFor_def)
  then have e: "e \<in> set xs" "input e = il" by auto
  then have "findIndex (\<lambda>item. input item = il) xs \<noteq> None"
    by (auto simp: findIndex_None_iff)
  then obtain i where i: "findIndex (\<lambda>item. input item = il) xs = Some i" by auto
  from findIndex_Some[OF i] have il: "i < length xs" "input (xs ! i) = il" by auto
  then have "xs ! i \<in> set (filter (\<lambda>e. input e = il) xs)" by simp
  with assms have xi: "xs ! i = e" by (simp add: entriesFor_def)
  from filter_single_split[OF assms[unfolded entriesFor_def]]
  obtain j where j: "j < length xs" "xs ! j = e"
    "filter (\<lambda>e. input e = il) (take j xs) = []" "filter (\<lambda>e. input e = il) (drop (Suc j) xs) = []"
    by blast
  have "j = i"
  proof (rule ccontr)
    assume ne: "j \<noteq> i"
    show False
    proof (cases "i < j")
      case True
      with il j(1) have "xs ! i \<in> set (take j xs)"
        by (auto simp: in_set_conv_nth intro!: exI[of _ i])
      with j(3) il(2) show False by (auto simp: filter_empty_conv)
    next
      case False
      with ne have "j < i" by simp
      with findIndex_Some[OF i] have "input (xs ! j) \<noteq> il" by simp
      with j(2) e(2) show False by simp
    qed
  qed
  with i il xi j show ?thesis by (auto simp: entriesFor_def)
qed

lemma entriesFor_update:
  assumes "i < length xs" "entriesFor il (take i xs) = []" "entriesFor il (drop (Suc i) xs) = []"
    and "input y = il"
  shows "entriesFor il (xs[i := y]) = [y]"
proof -
  have "xs[i := y] = take i xs @ y # drop (Suc i) xs"
    using assms(1) by (rule upd_conv_take_nth_drop)
  then show ?thesis
    using assms by (simp add: entriesFor_def)
qed

lemma entriesFor_sortByScore_single: "entriesFor il xs = [e] \<Longrightarrow> entriesFor il (sortByScore xs) = [e]"
  by (simp add: entriesFor_def sortByScore_def filter_sort)

lemma upsert_fresh:
  assumes "entriesFor il xs = []"
  shows "upsert il r q now xs = xs @ [newEntry il r q now]"
proof -
  from assms have "findIndex (\<lambda>item. input item = il) xs = None"
    by (auto simp: findIndex_None_iff entriesFor_def filter_empty_conv)
  then show ?thesis by (simp add: upsert_def)
qed

lemma upsert_reinforce:
  assumes "entriesFor il xs = [e]" "response e = r"
  shows "entriesFor il (upsert il r q now xs) = [reinforce e now] \<and>
         length (upsert il r q now xs) = length xs"
proof -
  from entriesFor_findIndex[OF assms(1)] obtain i where
    i: "findIndex (\<lambda>item. input item = il) xs = Some i" "i < length xs" "xs ! i = e"
       "entriesFor il (take i xs) = []" "entriesFor il (drop (Suc i) xs) = []"
    by blast
  from assms(1) have "e \<in> set (filter (\<lambda>e. input e = il) xs)" by (simp add: entriesFor_def)
  then have "input e = il" by simp
  then have "input (reinforce e now) = il" by (simp add: reinforce_def)
  from entriesFor_update[OF i(2) i(4) i(5) this]
  have "entriesFor il (xs[i := reinforce e now]) = [reinforce e now]" .
  with i assms(2) show ?thesis by (simp add: upsert_def Let_def)
qed

section \<open>Repeated learning\<close>

lemma newEntry_learnedEntry: "q \<le> 100 \<Longrightarrow> newEntry il r q now = learnedEntry il r q 1 now"
  by (simp add: newEntry_def learnedEntry_def)

lemma reinforce_learnedEntry:
  "n \<ge> 1 \<Longrightarrow> reinforce (learnedEntry il r q n t) now = learnedEntry il r q (Suc n) now"
  by (simp add: reinforce_def learnedEntry_def confidenceOr1_def)

lemma response_learnedEntry [simp]: "response (learnedEntry il r q n t) = r"
  by (simp add: learnedEntry_def)

text \<open>A list sorted by a key splits at any value of the key.\<close>

lemma sorted_key_split:
  "sorted (map f xs) \<Longrightarrow> xs = filter (\<lambda>y. f y \<le> v) xs @ filter (\<lambda>y. \<not> f y \<le> v) xs"
proof (induction xs)
  case Nil
  then show ?case by simp
next
  case (Cons x xs)
  then have IH: "xs = filter (\<lambda>y. f y \<le> v) xs @ filter (\<lambda>y. \<not> f y \<le> v) xs"
    and le: "\<forall>y\<in>set xs. f x \<le> f y"
    by auto
  show ?case
  proof (cases "f x \<le> v")
    case True
    with IH show ?thesis by simp
  next
    case False
    with le have "\<forall>y\<in>set xs. \<not> f y \<le> v" by auto
    then have "filter (\<lambda>y. f y \<le> v) xs = []" "filter (\<lambda>y. \<not> f y \<le> v) xs = xs"
      by (auto simp: filter_empty_conv filter_id_conv)
    with False show ?thesis by simp
  qed
qed

text \<open>An appended entry with fewer than \<open>n\<close> rivals is among the first \<open>n\<close> after the
  sort.\<close>

lemma appended_survives:
  assumes "rivals (score x) xs < n"
  shows "x \<in> set (take n (sortByScore (xs @ [x])))"
proof -
  let ?S = "sortByScore (xs @ [x])"
  let ?A = "filter (\<lambda>y. - score y \<le> - score x) ?S"
  let ?B = "filter (\<lambda>y. \<not> - score y \<le> - score x) ?S"
  have "sorted (map (\<lambda>e. - score e) ?S)"
    by (simp add: sortByScore_def)
  then have S: "?S = ?A @ ?B" by (rule sorted_key_split)
  have "length ?A = length (filter (\<lambda>y. - score y \<le> - score x) (xs @ [x]))"
    by (simp add: sortByScore_def filter_sort)
  also have "\<dots> = Suc (rivals (score x) xs)"
    by (simp add: rivals_def)
  finally have len: "length ?A \<le> n" using assms by simp
  have "x \<in> set ?A" by simp
  moreover have "take n ?S = ?A @ take (n - length ?A) ?B"
    using len by (subst S) simp
  ultimately show ?thesis by simp
qed

lemma entriesFor_take_single:
  assumes "entriesFor il xs = [e]" "e \<in> set (take n xs)"
  shows "entriesFor il (take n xs) = [e]"
proof -
  have "entriesFor il (take n xs) @ entriesFor il (drop n xs) = [e]"
    using assms(1) by (simp add: entriesFor_def flip: filter_append)
  moreover have "e \<in> set (entriesFor il xs)"
    using assms(1) by simp
  then have "input e = il"
    by (simp add: entriesFor_def)
  then have "e \<in> set (entriesFor il (take n xs))"
    using assms(2) by (simp add: entriesFor_def)
  ultimately show ?thesis by (cases "entriesFor il (take n xs)") auto
qed

lemma score_newEntry: "score (newEntry il r q now) = q"
  by (simp add: score_def confidenceOr1_def newEntry_def)

lemma learnCluster_fresh:
  assumes "entriesFor il xs = []" "rivals q xs < 20"
  shows "entriesFor il (learnCluster il r q now xs) = [newEntry il r q now] \<and>
         length (learnCluster il r q now xs) \<le> 20"
proof -
  let ?new = "newEntry il r q now"
  have "entriesFor il (xs @ [?new]) = [?new]"
    using assms(1) by (simp add: entriesFor_def newEntry_def)
  then have one: "entriesFor il (sortByScore (xs @ [?new])) = [?new]"
    by (rule entriesFor_sortByScore_single)
  have "?new \<in> set (take 20 (sortByScore (xs @ [?new])))"
    using assms(2) by (intro appended_survives) (simp add: score_newEntry)
  with one have "entriesFor il (take 20 (sortByScore (xs @ [?new]))) = [?new]"
    by (rule entriesFor_take_single)
  then show ?thesis
    by (simp add: learnCluster_eq upsert_fresh[OF assms(1)])
qed

lemma learnCluster_reinforce:
  assumes "entriesFor il xs = [e]" "response e = r" "length xs \<le> 20"
  shows "entriesFor il (learnCluster il r q now xs) = [reinforce e now] \<and>
         length (learnCluster il r q now xs) \<le> 20"
proof -
  from upsert_reinforce[OF assms(1,2), of q now]
  have u: "entriesFor il (upsert il r q now xs) = [reinforce e now]"
    and l: "length (upsert il r q now xs) = length xs" by auto
  from u have "entriesFor il (sortByScore (upsert il r q now xs)) = [reinforce e now]"
    by (rule entriesFor_sortByScore_single)
  with l assms(3) show ?thesis
    by (simp add: learnCluster_eq)
qed

lemma learnPairs_fresh:
  assumes "entriesFor il ps = []" "rivals q ps < 1000"
  shows "entriesFor il (learnPairs il r q now ps) = [newEntry il r q now] \<and>
         length (learnPairs il r q now ps) \<le> 1000"
proof -
  let ?new = "newEntry il r q now"
  have app: "entriesFor il (ps @ [?new]) = [?new]"
    using assms(1) by (simp add: entriesFor_def newEntry_def)
  then have one: "entriesFor il (sortByScore (ps @ [?new])) = [?new]"
    by (rule entriesFor_sortByScore_single)
  have "?new \<in> set (take 1000 (sortByScore (ps @ [?new])))"
    using assms(2) by (intro appended_survives) (simp add: score_newEntry)
  with one have "entriesFor il (take 1000 (sortByScore (ps @ [?new]))) = [?new]"
    by (rule entriesFor_take_single)
  with app show ?thesis
    by (simp add: learnPairs_def Let_def upsert_fresh[OF assms(1)])
qed

lemma learnPairs_reinforce:
  assumes "entriesFor il ps = [e]" "response e = r" "length ps \<le> 1000"
  shows "entriesFor il (learnPairs il r q now ps) = [reinforce e now] \<and>
         length (learnPairs il r q now ps) \<le> 1000"
  using upsert_reinforce[OF assms(1,2), of q now] assms(3)
  by (simp add: learnPairs_def Let_def)

lemma not_mentioned:
  assumes "\<not> mentions m il"
  shows "entriesFor il (clusterOf m k) = []" "entriesFor il (contextPairs m) = []"
proof -
  from assms have n: "\<And>e. storedPattern m e \<Longrightarrow> input e \<noteq> il"
    by (auto simp: mentions_def)
  show "entriesFor il (contextPairs m) = []"
    using n by (auto simp: entriesFor_def filter_empty_conv storedPattern_def)
  show "entriesFor il (clusterOf m k) = []"
  proof (cases "semanticClusters m k")
    case None
    then show ?thesis by (simp add: clusterOf_def entriesFor_def)
  next
    case (Some xs)
    then have "\<And>e. e \<in> set xs \<Longrightarrow> storedPattern m e"
      by (auto simp: storedPattern_def)
    with n Some show ?thesis
      by (auto simp: clusterOf_def entriesFor_def filter_empty_conv)
  qed
qed

lemma clusterOf_learnPattern:
  assumes "\<forall>k\<in>set (extractKeywords inp). getProp (semanticClusters m) k \<noteq> Inherited"
    and "k \<in> set (extractKeywords inp)"
  shows "semanticClusters (snd (learnPattern inp r q now m)) k =
           Some (learnCluster (toLowerCase inp) r q now (clusterOf m k))"
    and "clusterOf (snd (learnPattern inp r q now m)) k =
           learnCluster (toLowerCase inp) r q now (clusterOf m k)"
  using assms(2) by (simp_all add: learnPattern_Normal[OF assms(1)] clusterOf_def)

lemma contextPairs_learnPattern:
  assumes "\<forall>k\<in>set (extractKeywords inp). getProp (semanticClusters m) k \<noteq> Inherited"
  shows "contextPairs (snd (learnPattern inp r q now m)) =
           (if q \<ge> 60 then learnPairs (toLowerCase inp) r q now (contextPairs m)
            else contextPairs m)"
  by (simp add: learnPattern_Normal[OF assms])

lemma learn_first:
  assumes q: "q \<le> 100"
    and fresh: "\<not> mentions m (toLowerCase inp)"
    and room: "\<forall>k\<in>set (extractKeywords inp). rivals q (clusterOf m k) < 20"
              "q \<ge> 60 \<longrightarrow> rivals q (contextPairs m) < 1000"
    and own: "\<forall>k\<in>set (extractKeywords inp). getProp (semanticClusters m) k \<noteq> Inherited"
  shows "learntOnceInv inp r q 1 now (snd (learnPattern inp r q now m))"
proof -
  let ?il = "toLowerCase inp"
  let ?m' = "snd (learnPattern inp r q now m)"
  have c: "entriesFor ?il (clusterOf ?m' k) = [learnedEntry ?il r q 1 now] \<and>
           semanticClusters ?m' k \<noteq> None \<and> length (clusterOf ?m' k) \<le> 20"
    if k: "k \<in> set (extractKeywords inp)" for k
  proof -
    from room(1) k have "rivals q (clusterOf m k) < 20" by simp
    from learnCluster_fresh[OF not_mentioned(1)[OF fresh] this, where r = r and now = now]
    show ?thesis
      by (simp add: clusterOf_learnPattern[OF own k] newEntry_learnedEntry[OF q])
  qed
  have p: "entriesFor ?il (contextPairs ?m') = [learnedEntry ?il r q 1 now] \<and>
           length (contextPairs ?m') \<le> 1000" if "q \<ge> 60"
  proof -
    from room(2) that have "rivals q (contextPairs m) < 1000" by simp
    from learnPairs_fresh[OF not_mentioned(2)[OF fresh] this, where r = r and now = now] that
    show ?thesis
      by (simp add: contextPairs_learnPattern[OF own] newEntry_learnedEntry[OF q])
  qed
  from c p show ?thesis
    by (simp add: learntOnceInv_def learntOnce_def)
qed

lemma learn_again:
  assumes inv: "learntOnceInv inp r q n t m" and n: "n \<ge> 1"
  shows "learntOnceInv inp r q (Suc n) now (snd (learnPattern inp r q now m))"
proof -
  let ?il = "toLowerCase inp"
  let ?m' = "snd (learnPattern inp r q now m)"
  from inv have
    cl: "\<And>k. k \<in> set (extractKeywords inp) \<Longrightarrow>
           entriesFor ?il (clusterOf m k) = [learnedEntry ?il r q n t] \<and>
           semanticClusters m k \<noteq> None \<and> length (clusterOf m k) \<le> 20"
    and ps: "q \<ge> 60 \<Longrightarrow> entriesFor ?il (contextPairs m) = [learnedEntry ?il r q n t] \<and>
           length (contextPairs m) \<le> 1000"
    by (auto simp: learntOnceInv_def learntOnce_def)
  have own: "\<forall>k\<in>set (extractKeywords inp). getProp (semanticClusters m) k \<noteq> Inherited"
  proof
    fix k assume "k \<in> set (extractKeywords inp)"
    from cl[OF this] obtain xs where "semanticClusters m k = Some xs" by auto
    then show "getProp (semanticClusters m) k \<noteq> Inherited" by (simp add: getProp_def)
  qed
  have c: "entriesFor ?il (clusterOf ?m' k) = [learnedEntry ?il r q (Suc n) now] \<and>
           semanticClusters ?m' k \<noteq> None \<and> length (clusterOf ?m' k) \<le> 20"
    if k: "k \<in> set (extractKeywords inp)" for k
  proof -
    from cl[OF k] have e: "entriesFor ?il (clusterOf m k) = [learnedEntry ?il r q n t]"
      and l: "length (clusterOf m k) \<le> 20" by auto
    from learnCluster_reinforce[OF e _ l, of r q now]
    show ?thesis
      by (simp add: clusterOf_learnPattern[OF own k] reinforce_learnedEntry[OF n])
  qed
  have p: "entriesFor ?il (contextPairs ?m') = [learnedEntry ?il r q (Suc n) now] \<and>
           length (contextPairs ?m') \<le> 1000" if q60: "q \<ge> 60"
  proof -
    from ps[OF q60] have e: "entriesFor ?il (contextPairs m) = [learnedEntry ?il r q n t]"
      and l: "length (contextPairs m) \<le> 1000" by auto
    from learnPairs_reinforce[OF e _ l, of r q now] q60
    show ?thesis
      by (simp add: contextPairs_learnPattern[OF own] reinforce_learnedEntry[OF n])
  qed
  from c p show ?thesis
    by (simp add: learntOnceInv_def learntOnce_def)
qed

lemma learnTimes_Cons:
  "learnTimes inp r q (now # nows) m = learnTimes inp r q nows (snd (learnPattern inp r q now m))"
  by (simp add: learnTimes_def learnAll_def learnCall_def)

lemma learnTimes_Nil: "learnTimes inp r q [] m = m"
  by (simp add: learnTimes_def learnAll_def)

lemma learn_more:
  assumes "learntOnceInv inp r q n t m" "n \<ge> 1"
  shows "learntOnceInv inp r q (n + length nows) (last (t # nows)) (learnTimes inp r q nows m)"
  using assms
proof (induction nows arbitrary: n t m)
  case Nil
  then show ?case by (simp add: learnTimes_Nil)
next
  case (Cons now nows)
  from learn_again[OF Cons.prems, of now]
  have "learntOnceInv inp r q (Suc n) now (snd (learnPattern inp r q now m))" .
  from Cons.IH[OF this] show ?case
    by (simp add: learnTimes_Cons)
qed

text \<open>
  C1 (amended). Take a quality \<open>q\<close> between 0 and 100 and a store that mentions the
  lower-cased input nowhere, in which fewer than 20 entries of the cluster of each
  keyword of the input have a score of at least \<open>q\<close>, in which, when \<open>q >= 60\<close>, fewer
  than 1000 entries of \<open>contextPairs\<close> have such a score, and in which no keyword of the
  input is a property the cluster object merely inherits. After N >= 1 calls of
  \<open>learnPattern\<close> with the same input, response and quality (at the times \<open>nows\<close>), the
  cluster of every keyword holds exactly one entry for the input, and so does
  \<open>contextPairs\<close> when \<open>q >= 60\<close>; that entry has confidence N, quality
  \<open>min 100 (q + 2 * (N - 1))\<close>, the response, and the time of the last call.
\<close>

theorem repeated_learning_reinforces:
  assumes q: "0 \<le> q" "q \<le> 100"
    and calls: "nows \<noteq> []"
    and fresh: "\<not> mentions m (toLowerCase inp)"
    and room: "\<forall>k\<in>set (extractKeywords inp). rivals q (clusterOf m k) < 20"
              "q \<ge> 60 \<longrightarrow> rivals q (contextPairs m) < 1000"
    and own: "\<forall>k\<in>set (extractKeywords inp). getProp (semanticClusters m) k \<noteq> Inherited"
  shows "learntOnce inp resp q (length nows) (last nows) (learnTimes inp resp q nows m)"
proof -
  from calls obtain now rest where nows: "nows = now # rest" by (cases nows) auto
  have "learntOnceInv inp resp q 1 now (snd (learnPattern inp resp q now m))"
    by (rule learn_first[OF q(2) fresh room own])
  from learn_more[OF this, of rest]
  have "learntOnceInv inp resp q (length nows) (last nows) (learnTimes inp resp q nows m)"
    by (simp add: nows learnTimes_Cons)
  then show ?thesis by (simp add: learntOnceInv_def)
qed

section \<open>Replacement and reinforcement\<close>

lemma upsert_found:
  assumes "findIndex (\<lambda>item. input item = il) xs = Some i"
  shows "upsert il r q now xs =
           (if response (xs ! i) = r then xs[i := reinforce (xs ! i) now]
            else if q > quality (xs ! i) + 10 \<or> olderThan30Days (xs ! i) now
                 then xs[i := newEntry il r q now]
                 else xs)"
    and "length (upsert il r q now xs) = length xs"
  using assms by (simp_all add: upsert_def Let_def)

lemma learnCluster_found:
  assumes "findIndex (\<lambda>item. input item = il) xs = Some i" "length xs \<le> 20"
  shows "learnCluster il r q now xs = sortByScore (upsert il r q now xs)"
  using assms by (simp add: learnCluster_eq upsert_found(2))

lemma learnPairs_found:
  assumes "findIndex (\<lambda>item. input item = il) ps = Some j" "length ps \<le> 1000"
  shows "learnPairs il r q now ps = upsert il r q now ps"
  using assms by (simp add: learnPairs_def Let_def upsert_found(2))

text \<open>
  C2 (amended). Let the call return normally. In a cluster keyed by a keyword of the
  input and within its cap, the first entry for the lower-cased input, when its response
  differs from the new one, is replaced by a new entry (new response, quality q,
  confidence 1, time of the call) if and only if \<open>q > Q + 10\<close> or it is older than 30
  days; otherwise the cluster keeps its entries. In \<open>contextPairs\<close> the same holds only
  for calls with \<open>q >= 60\<close>: below that, the pair is never replaced, whatever its age.
\<close>

theorem replacement_policy:
  fixes inp resp k :: string and q now :: int and m :: memory and i j :: nat
  defines "m' \<equiv> snd (learnPattern inp resp q now m)"
  defines "il \<equiv> toLowerCase inp"
  defines "existing \<equiv> clusterOf m k ! i"
  defines "pair \<equiv> contextPairs m ! j"
  assumes own: "\<forall>k\<in>set (extractKeywords inp). getProp (semanticClusters m) k \<noteq> Inherited"
  shows "(k \<in> set (extractKeywords inp) \<and> length (clusterOf m k) \<le> 20 \<and>
          findIndex (\<lambda>item. input item = il) (clusterOf m k) = Some i \<and>
          response existing \<noteq> resp \<longrightarrow>
            semanticClusters m' k =
              Some (sortByScore
                (if q > quality existing + 10 \<or> olderThan30Days existing now
                 then (clusterOf m k)[i := newEntry il resp q now]
                 else clusterOf m k))) \<and>
         (length (contextPairs m) \<le> 1000 \<and>
          findIndex (\<lambda>item. input item = il) (contextPairs m) = Some j \<and>
          response pair \<noteq> resp \<longrightarrow>
            contextPairs m' =
              (if q \<ge> 60 \<and> (q > quality pair + 10 \<or> olderThan30Days pair now)
               then (contextPairs m)[j := newEntry il resp q now]
               else contextPairs m))"
proof (intro conjI impI)
  assume a: "k \<in> set (extractKeywords inp) \<and> length (clusterOf m k) \<le> 20 \<and>
          findIndex (\<lambda>item. input item = il) (clusterOf m k) = Some i \<and>
          response existing \<noteq> resp"
  then have k: "k \<in> set (extractKeywords inp)" and l: "length (clusterOf m k) \<le> 20"
    and f: "findIndex (\<lambda>item. input item = il) (clusterOf m k) = Some i"
    and r: "response (clusterOf m k ! i) \<noteq> resp"
    by (auto simp: existing_def)
  have "semanticClusters m' k = Some (sortByScore (upsert il resp q now (clusterOf m k)))"
    unfolding m'_def il_def
    using clusterOf_learnPattern(1)[OF own k] learnCluster_found[OF f[unfolded il_def] l]
    by simp
  with r show "semanticClusters m' k =
              Some (sortByScore
                (if q > quality existing + 10 \<or> olderThan30Days existing now
                 then (clusterOf m k)[i := newEntry il resp q now]
                 else clusterOf m k))"
    by (simp add: upsert_found(1)[OF f] existing_def)
next
  assume a: "length (contextPairs m) \<le> 1000 \<and>
          findIndex (\<lambda>item. input item = il) (contextPairs m) = Some j \<and>
          response pair \<noteq> resp"
  then have l: "length (contextPairs m) \<le> 1000"
    and f: "findIndex (\<lambda>item. input item = il) (contextPairs m) = Some j"
    and r: "response (contextPairs m ! j) \<noteq> resp"
    by (auto simp: pair_def)
  have "contextPairs m' = (if q \<ge> 60 then upsert il resp q now (contextPairs m) else contextPairs m)"
    unfolding m'_def il_def
    using contextPairs_learnPattern[OF own] learnPairs_found[OF f[unfolded il_def] l]
    by simp
  with r show "contextPairs m' =
              (if q \<ge> 60 \<and> (q > quality pair + 10 \<or> olderThan30Days pair now)
               then (contextPairs m)[j := newEntry il resp q now]
               else contextPairs m)"
    by (simp add: upsert_found(1)[OF f] pair_def)
qed


section \<open>The garbage gate\<close>

text \<open>
  C9 (amended). When the cleaned message is empty or classified as garbage, the reply is
  the fixed fallback string, and \<open>contextPairs\<close>, \<open>semanticClusters\<close> and
  \<open>qualityScores\<close> are the same before and after; of \<open>stats\<close>, the counter
  \<open>garbageFiltered\<close> grows by one and nothing else changes. The older handler of
  \<open>server.js\<close> sends the same reply and changes nothing at all.
\<close>

theorem garbage_reply_counts_only:
  assumes "cleanedMessage = [] \<or> isGarbage cleanedMessage"
  shows "map_option responseText (fst (chatGate isGarbage cleanedMessage duration s))
           = Some garbageReply \<and>
         contextPairs (globalMemory (snd (chatGate isGarbage cleanedMessage duration s)))
           = contextPairs (globalMemory s) \<and>
         semanticClusters (globalMemory (snd (chatGate isGarbage cleanedMessage duration s)))
           = semanticClusters (globalMemory s) \<and>
         qualityScores (globalMemory (snd (chatGate isGarbage cleanedMessage duration s)))
           = qualityScores (globalMemory s) \<and>
         stats (globalMemory (snd (chatGate isGarbage cleanedMessage duration s)))
           = (stats (globalMemory s))
               \<lparr>garbageFiltered := garbageFiltered (stats (globalMemory s)) + 1\<rparr> \<and>
         map_option responseText (fst (chatGateV1 isGarbage cleanedMessage s))
           = Some garbageReply \<and>
         snd (chatGateV1 isGarbage cleanedMessage s) = s"
  using assms by (auto simp: chatGate_def chatGateV1_def Let_def)

theorem garbage_reply_counts_only_witness:
  "map_option responseText (fst (chatGate flagsNothing [] 3 (serverWith emptyMemory)))
     = Some garbageReply \<and>
   contextPairs (globalMemory (snd (chatGate flagsNothing [] 3 (serverWith emptyMemory)))) = [] \<and>
   garbageFiltered (stats (globalMemory (snd (chatGate flagsNothing [] 3 (serverWith emptyMemory))))) = 1"
  using garbage_reply_counts_only[of "[]" flagsNothing 3 "serverWith emptyMemory"]
  by (simp add: serverWith_def emptyMemory_def emptyStats_def)

text \<open>
  As stated, with \<open>stats\<close> unchanged, the property fails: a message that cleans to the
  empty string (such as \<open>Human:\<close>) is answered with the fallback and leaves
  \<open>garbageFiltered\<close> at 1 where it was 0.
\<close>

theorem garbage_reply_changes_stats_counterexample:
  "garbageFiltered (stats (globalMemory (serverWith emptyMemory))) = 0 \<and>
   garbageFiltered (stats (globalMemory (snd (chatGate flagsNothing [] 3 (serverWith emptyMemory))))) = 1 \<and>
   stats (globalMemory (snd (chatGate flagsNothing [] 3 (serverWith emptyMemory))))
     \<noteq> stats (globalMemory (serverWith emptyMemory))"
  by (simp add: chatGate_def serverWith_def emptyMemory_def emptyStats_def Let_def)

section \<open>Loading\<close>

lemma hasAllParts_present:
  "hasAllParts loaded = Some True \<longleftrightarrow>
     present loaded ''stats'' \<and> present loaded ''contextPairs'' \<and> present loaded ''semanticClusters''"
  by (auto simp: hasAllParts_def present_def split: option.splits)

text \<open>
  C7 (amended). Provided the storage directories can be created, \<open>loadMemory\<close> resolves
  whatever the stored text is. The memory afterwards is the loaded value when some
  source yields a non-empty text that parses and whose \<open>stats\<close>, \<open>contextPairs\<close> and
  \<open>semanticClusters\<close> are all present and truthy; in every other case, a text that
  does not parse included, it is the memory as it was (the defaults).
\<close>

theorem loadMemory_accepts_present_parts:
  "loadMemory True parse sources current =
     Resolved
       (case firstText sources of
          None \<Rightarrow> current
        | Some memoryStr \<Rightarrow>
            (case parse memoryStr of
               None \<Rightarrow> current
             | Some loaded \<Rightarrow>
                 if present loaded ''stats'' \<and> present loaded ''contextPairs'' \<and>
                    present loaded ''semanticClusters''
                 then loaded else current))"
proof (cases "firstText sources")
  case None
  then show ?thesis by (simp add: loadMemory_def)
next
  case (Some memoryStr)
  show ?thesis
  proof (cases "parse memoryStr")
    case None
    with Some show ?thesis by (simp add: loadMemory_def)
  next
    case (Some loaded)
    show ?thesis
    proof (cases "hasAllParts loaded = Some True")
      case True
      with \<open>firstText sources = Some memoryStr\<close> Some True hasAllParts_present[of loaded]
      show ?thesis by (simp add: loadMemory_def)
    next
      case False
      with hasAllParts_present[of loaded]
      have "\<not> (present loaded ''stats'' \<and> present loaded ''contextPairs'' \<and>
                present loaded ''semanticClusters'')" by simp
      with \<open>firstText sources = Some memoryStr\<close> Some False show ?thesis
        by (auto simp: loadMemory_def split: option.splits bool.splits)
    qed
  qed
qed

theorem loadMemory_accepts_present_parts_witness:
  "loadMemory True parseSamples [None, Some [], None, Some ''null''] defaultMemory
     = Resolved defaultMemory \<and>
   loadMemory True parseSamples [Some ''{broken''] defaultMemory = Resolved defaultMemory \<and>
   loadMemory True parseSamples
     [None, None, None, Some ''{\"stats\":1,\"contextPairs\":1,\"semanticClusters\":1}'']
     defaultMemory = Resolved scalarSnapshot"
  by (simp add: loadMemory_accepts_present_parts parseSamples_def present_def getField_def
        scalarSnapshot_def)

text \<open>
  As stated, with acceptance tied to structural validity, the property fails both ways:
  a snapshot whose \<open>contextPairs\<close> and \<open>semanticClusters\<close> are the number 1 is accepted,
  and a snapshot with an array and an object but no \<open>stats\<close> is rejected.
\<close>

theorem loadMemory_structure_counterexample:
  "\<not> structurallyValid scalarSnapshot \<and>
   loadMemory True parseSamples
     [None, None, None, Some ''{\"stats\":1,\"contextPairs\":1,\"semanticClusters\":1}'']
     defaultMemory = Resolved scalarSnapshot \<and>
   structurallyValid statlessSnapshot \<and>
   loadMemory True parseSamples
     [None, None, None, Some ''{\"contextPairs\":[],\"semanticClusters\":{}}'']
     defaultMemory = Resolved defaultMemory"
  by (simp add: structurallyValid_def scalarSnapshot_def statlessSnapshot_def parseSamples_def
        loadMemory_def hasAllParts_def getField_def defaultMemory_def)

section \<open>Saving and the save coordinator\<close>

text \<open>
  C8. The property claimed is that a write failure of any backend other than the
  primary file is logged as a warning and never thrown. The code, at a save during
  which only the write to the durable mirror fails: the primary file holds the snapshot,
  the failure is logged at level \<open>ERROR\<close>, the promise is rejected, and neither remote
  store is written.
\<close>

theorem saveMemory_mirror_failure_throws:
  "saveMemory allBackends mirrorWriteFails memoryStr emptyStorage =
     (Rejected, [(ERROR, ''Failed to save memory'')],
      emptyStorage\<lparr>primaryFile := Some memoryStr\<rparr>)"
  by (simp add: saveMemory_def mirrorWriteFails_def emptyStorage_def)

text \<open>
  When the four file operations succeed, a save resolves whatever the remote stores do:
  both files hold the snapshot, and a failing remote store leaves a warning in the log
  and nothing else.
\<close>

lemma saveMemory_remote_failures_isolated:
  assumes "\<not> primaryWriteFails f" "\<not> primaryRenameFails f"
    and "\<not> durableWriteFails f" "\<not> durableRenameFails f"
  shows "fst (saveMemory cfg f memoryStr st) = Resolved () \<and>
         primaryFile (snd (snd (saveMemory cfg f memoryStr st))) = Some memoryStr \<and>
         durableFile (snd (snd (saveMemory cfg f memoryStr st))) = Some memoryStr \<and>
         ERROR \<notin> fst ` set (fst (snd (saveMemory cfg f memoryStr st)))"
  using assms
  by (simp add: saveMemory_def saveMemoryToPostgres_def saveMemoryToReplitDB_def Let_def
        split: prod.splits)

lemma saveMemory_remote_failures_isolated_witness:
  "saveMemory allBackends (mirrorWriteFails\<lparr>durableWriteFails := False, relationalFails := True,
                                             keyValueFails := True\<rparr>) ''{}'' emptyStorage =
     (Resolved (),
      [(INFO, ''Memory saved successfully''), (WARN, ''Failed to save memory to Postgres''),
       (WARN, ''Failed to save memory to Replit DB'')],
      emptyStorage\<lparr>primaryFile := Some ''{}'', durableFile := Some ''{}''\<rparr>)"
proof -
  let ?f = "mirrorWriteFails\<lparr>durableWriteFails := False, relationalFails := True,
                             keyValueFails := True\<rparr>"
  have ok: "\<not> primaryWriteFails ?f" "\<not> primaryRenameFails ?f"
    "\<not> durableWriteFails ?f" "\<not> durableRenameFails ?f"
    by (simp_all add: mirrorWriteFails_def)
  have "fst (saveMemory allBackends ?f ''{}'' emptyStorage) = Resolved ()"
    using saveMemory_remote_failures_isolated[OF ok] by simp
  then show ?thesis
    by (simp add: saveMemory_def saveMemoryToPostgres_def saveMemoryToReplitDB_def Let_def
          mirrorWriteFails_def allBackends_def emptyStorage_def)
qed

text \<open>
  C4. The property claimed is that there is never more than one save in flight. The
  code, when a learning event calls \<open>queueSave\<close> and the termination signal arrives
  before the \<open>setImmediate\<close> callback has run: \<open>gracefulShutdown\<close> finds \<open>saveQueue\<close>
  settled and starts its own save, then the callback runs and the queued save starts
  too, so two saves are in flight. The same happens when \<open>queueSave\<close> is called while
  the save of \<open>gracefulShutdown\<close> is in flight.
\<close>

theorem shutdown_overlaps_queued_save:
  "inFlight (run [QueueSave, Signal] idle) = 1 \<and>
   inFlight (run [QueueSave, Signal, Immediate] idle) = 2 \<and>
   inFlight (run [Signal, QueueSave, Immediate] idle) = 2"
  by (simp add: run_def idle_def inFlight_def startNext_def startDirect_def Let_def)

text \<open>Without a termination signal no save is made outside the chain.\<close>

lemma no_signal_no_direct:
  assumes "Signal \<notin> set events" "directSaving c = 0" "awaiting c = []"
  shows "directSaving (run events c) = 0 \<and> awaiting (run events c) = []"
  using assms
proof (induction events arbitrary: c)
  case Nil
  then show ?case by (simp add: run_def)
next
  case (Cons e events)
  have "directSaving (step c e) = 0 \<and> awaiting (step c e) = []"
    using Cons.prems by (cases e) (auto simp: startNext_def startDirect_def Let_def)
  with Cons.IH[of "step c e"] Cons.prems show ?case by (simp add: run_def)
qed

text \<open>
  As long as no termination signal arrives, at most one save is in flight, whatever the
  order of \<open>queueSave\<close> calls, \<open>setImmediate\<close> callbacks and completions.
\<close>

lemma queue_alone_one_in_flight:
  assumes "Signal \<notin> set events"
  shows "inFlight (run events idle) \<le> 1"
  using no_signal_no_direct[OF assms, of idle]
  by (simp add: inFlight_def idle_def)

lemma queue_alone_one_in_flight_witness:
  "inFlight (run [QueueSave, Immediate, QueueSave, Immediate, ChainSaveSettles False] idle) = 1"
proof -
  have "inFlight (run [QueueSave, Immediate, QueueSave, Immediate, ChainSaveSettles False] idle) \<le> 1"
    by (rule queue_alone_one_in_flight) simp
  moreover have "inFlight (run [QueueSave, Immediate, QueueSave, Immediate, ChainSaveSettles False] idle) \<ge> 1"
    by (simp add: run_def idle_def inFlight_def startNext_def startDirect_def Let_def)
  ultimately show ?thesis by simp
qed

section \<open>The keyword constructor\<close>

text \<open>
  The keyword \<open>constructor\<close>. On a store without an own cluster of that name, learning an
  input that contains the word raises after the clusters of the keywords before it were
  updated, and leaves \<open>contextPairs\<close> and \<open>qualityScores\<close> alone; searching for such an
  input raises as well, unless an exact match answers first.
\<close>

lemma learnPattern_constructor_raises:
  "fst (learnPattern ''class constructor'' ''yes'' 70 0 emptyMemory) = TypeError \<and>
   clusterOf (snd (learnPattern ''class constructor'' ''yes'' 70 0 emptyMemory)) ''class''
     = [newEntry ''class constructor'' ''yes'' 70 0] \<and>
   semanticClusters (snd (learnPattern ''class constructor'' ''yes'' 70 0 emptyMemory)) ''constructor''
     = None \<and>
   contextPairs (snd (learnPattern ''class constructor'' ''yes'' 70 0 emptyMemory)) = []"
  by (simp add: text_defs learn_defs clusterOf_def)

lemma findBestResponse_constructor_raises:
  "fst (findBestResponse ''constructor'' 0 (serverWith emptyMemory)) = ThrowsTypeError"
  by (simp add: text_defs findBestResponse_def cacheGet_def cacheKey_def trim_def serverWith_def
        searchMemory_def candidatesFor_def getProp_def objectPrototypeKeys_def emptyMemory_def Let_def)

section \<open>A scheduled save is a pending save\<close>

text \<open>
  While \<open>saveScheduled\<close> is set, a save that has not started yet is registered with
  \<open>setImmediate\<close> or chained on \<open>saveQueue\<close>; it will serialise the memory as it is when
  it starts.
\<close>

lemma scheduled_means_pending_step:
  assumes "saveScheduled c \<longrightarrow> immediates c + waiting c > 0"
  shows "saveScheduled (step c e) \<longrightarrow> immediates (step c e) + waiting (step c e) > 0"
  using assms by (cases e) (auto simp: startNext_def startDirect_def Let_def)

lemma scheduled_means_pending:
  assumes "saveScheduled c \<longrightarrow> immediates c + waiting c > 0"
  shows "saveScheduled (run events c) \<longrightarrow> immediates (run events c) + waiting (run events c) > 0"
  using assms
proof (induction events arbitrary: c)
  case Nil
  then show ?case by (simp add: run_def)
next
  case (Cons e events)
  from Cons.IH[OF scheduled_means_pending_step[OF Cons.prems, of e]]
  show ?case by (simp add: run_def)
qed

text \<open>So a call of \<open>queueSave\<close> in a running process always leaves such a save behind,
  whether it schedules one or finds one scheduled.\<close>

lemma queueSave_leaves_pending_save:
  assumes "\<not> exited (run events idle)"
  shows "immediates (step (run events idle) QueueSave) + waiting (step (run events idle) QueueSave) > 0"
proof -
  have "saveScheduled (run events idle) \<longrightarrow>
          immediates (run events idle) + waiting (run events idle) > 0"
    by (rule scheduled_means_pending) (simp add: idle_def)
  with assms show ?thesis by auto
qed

section \<open>Concrete runs of repeated learning\<close>

text \<open>The store of the twenty calls, computed.\<close>

lemma cat_store:
  "semanticClusters catStore = [''cat'' \<mapsto> catEntries] \<and> contextPairs catStore = catEntries"
  by (simp add: catStore_def catCalls_def catEntries_def learnAll_def learnCall_def text_defs learn_defs)

lemma cat_cluster: "clusterOf catStore ''cat'' = catEntries"
  by (simp add: clusterOf_def cat_store)

lemma cat_not_mentioned: "\<not> mentions catStore ''cat''"
  by (auto simp: mentions_def storedPattern_def cat_store catEntries_def newEntry_def stopWords_def
           split: if_splits)

lemma cat_upsert:
  "sortByScore (upsert ''cat'' ''purr'' 50 1 catEntries) = catEntries @ [newEntry ''cat'' ''purr'' 50 1]"
  by (simp add: catEntries_def stopWords_def learn_defs)

theorem caps_hold_lowest_evicted_witness:
  "withinCaps catStore \<and>
   length (clusterOf catStore ''cat'') = 20 \<and>
   processedKeywords catStore ''cat'' = [''cat''] \<and>
   sortByScore (upsert (toLowerCase ''cat'') ''purr'' 50 1 (clusterOf catStore ''cat''))
     = catEntries @ [newEntry ''cat'' ''purr'' 50 1] \<and>
   semanticClusters (learnCall catStore (''cat'', ''purr'', 50, 1)) ''cat'' = Some catEntries \<and>
   contextPairs (learnCall catStore (''cat'', ''purr'', 50, 1)) = contextPairs catStore \<and>
   lowestEvicted 20 (sortByScore (upsert (toLowerCase ''cat'') ''purr'' 50 1 (clusterOf catStore ''cat'')))"
proof -
  have lc: "toLowerCase ''cat'' = ''cat''" by (simp add: text_defs)
  have pk: "processedKeywords catStore ''cat'' = [''cat'']"
    by (simp add: processedKeywords_def cat_store getProp_def text_defs)
  have len: "length catEntries = 20" by (simp add: catEntries_def stopWords_def)
  then show ?thesis
    using caps_hold_lowest_evicted[where calls = catCalls and inp = "''cat''" and resp = "''purr''"
        and q = 50 and now = 1 and k = "''cat''"]
    by (simp add: catStore_def[symmetric] cat_cluster lc cat_upsert pk)
qed

text \<open>
  As stated, for every store that has no entry for the input, the property fails when the
  cluster is full of higher-scoring entries: the new entry is appended, sorted last and
  cut off again, in every call.
\<close>

theorem repeated_learning_full_cluster_counterexample:
  "\<not> mentions catStore (toLowerCase ''cat'') \<and>
   extractKeywords ''cat'' = [''cat''] \<and>
   rivals 50 (clusterOf catStore ''cat'') = 20 \<and>
   entriesFor (toLowerCase ''cat'') (clusterOf (learnTimes ''cat'' ''purr'' 50 [1, 2] catStore) ''cat'') = []"
proof -
  have lc: "toLowerCase ''cat'' = ''cat''" by (simp add: text_defs)
  have kw: "extractKeywords ''cat'' = [''cat'']" by (simp add: text_defs)
  have own: "\<forall>k\<in>set (extractKeywords ''cat''). getProp (semanticClusters m) k \<noteq> Inherited" for m :: memory
    by (simp add: kw getProp_def objectPrototypeKeys_def split: option.splits)
  have step: "learnCluster ''cat'' ''purr'' 50 now catEntries = catEntries" for now
    by (simp add: catEntries_def stopWords_def learn_defs)
  have one: "clusterOf (snd (learnPattern ''cat'' ''purr'' 50 now m)) ''cat'' = catEntries"
    if "clusterOf m ''cat'' = catEntries" for now and m :: memory
    using clusterOf_learnPattern(2)[OF own, where k = "''cat''" and r = "''purr''" and q = 50 and now = now] that
    by (simp add: kw lc step)
  have "clusterOf (learnTimes ''cat'' ''purr'' 50 [1, 2] catStore) ''cat'' = catEntries"
    by (simp add: learnTimes_Cons learnTimes_Nil one cat_cluster)
  moreover have "entriesFor ''cat'' catEntries = []"
    by (simp add: entriesFor_def catEntries_def newEntry_def stopWords_def)
  moreover have "rivals 50 catEntries = 20"
    by (simp add: rivals_def catEntries_def stopWords_def score_def confidenceOr1_def newEntry_def)
  ultimately show ?thesis
    using cat_not_mentioned by (simp add: lc kw cat_cluster)
qed

theorem repeated_learning_reinforces_witness:
  "learntOnce ''Hello big World'' ''hi there'' 70 3 7
     (learnTimes ''Hello big World'' ''hi there'' 70 [5, 6, 7] emptyMemory)"
proof -
  have kw: "extractKeywords ''Hello big World'' = [''hello'', ''big'', ''world'']"
    by (simp add: text_defs)
  have 1: "\<not> mentions emptyMemory (toLowerCase ''Hello big World'')"
    by (simp add: mentions_def storedPattern_def emptyMemory_def)
  have 2: "\<forall>k\<in>set (extractKeywords ''Hello big World''). rivals 70 (clusterOf emptyMemory k) < 20"
    by (simp add: rivals_def clusterOf_def emptyMemory_def)
  have 3: "(70::int) \<ge> 60 \<longrightarrow> rivals 70 (contextPairs emptyMemory) < 1000"
    by (simp add: rivals_def emptyMemory_def)
  have 4: "\<forall>k\<in>set (extractKeywords ''Hello big World'').
             getProp (semanticClusters emptyMemory) k \<noteq> Inherited"
    by (simp add: kw getProp_def emptyMemory_def objectPrototypeKeys_def)
  from repeated_learning_reinforces[of 70 "[5, 6, 7]" emptyMemory "''Hello big World''" "''hi there''", OF _ _ _ 1 2 3 4]
  show ?thesis by (simp add: numeral_3_eq_3)
qed

section \<open>Concrete runs of replacement and reinforcement\<close>

lemma newEntry_fields:
  "input (newEntry il r q t) = il" "response (newEntry il r q t) = r"
  "quality (newEntry il r q t) = q" "confidence (newEntry il r q t) = 1"
  "timestamp (newEntry il r q t) = t"
  by (simp_all add: newEntry_def)

lemma hello_keywords: "extractKeywords ''hello'' = [''hello'']" "toLowerCase ''hello'' = ''hello''"
  by (simp_all add: text_defs)

lemma hello_store:
  "semanticClusters (helloStore q) = [''hello'' \<mapsto> [newEntry ''hello'' ''hi'' q 0]]"
  "contextPairs (helloStore q) = (if q \<ge> 60 then [newEntry ''hello'' ''hi'' q 0] else [])"
  by (simp_all add: helloStore_def text_defs learn_defs)

lemma hello_cluster: "clusterOf (helloStore q) ''hello'' = [newEntry ''hello'' ''hi'' q 0]"
  by (simp add: clusterOf_def hello_store)

lemma hello_own:
  "\<forall>k\<in>set (extractKeywords ''hello''). getProp (semanticClusters (helloStore q)) k \<noteq> Inherited"
  by (simp add: hello_keywords hello_store getProp_def)

theorem replacement_policy_witness:
  "semanticClusters (snd (learnPattern ''hello'' ''yo'' 55 day (helloStore 50))) ''hello''
     = Some [newEntry ''hello'' ''hi'' 50 0] \<and>
   semanticClusters (snd (learnPattern ''hello'' ''yo'' 61 day (helloStore 50))) ''hello''
     = Some [newEntry ''hello'' ''yo'' 61 day] \<and>
   contextPairs (snd (learnPattern ''hello'' ''yo'' 75 day (helloStore 70)))
     = [newEntry ''hello'' ''hi'' 70 0] \<and>
   contextPairs (snd (learnPattern ''hello'' ''yo'' 81 day (helloStore 70)))
     = [newEntry ''hello'' ''yo'' 81 day]"
proof -
  have young: "\<not> olderThan30Days (newEntry ''hello'' ''hi'' q 0) day" for q
    by (simp add: olderThan30Days_def newEntry_def day_def)
  have single: "sortByScore [e] = [e]" for e
    by (simp add: sortByScore_def)
  from replacement_policy[OF hello_own[of 50], where k = "''hello''" and i = 0 and resp = "''yo''" and q = 55 and now = day]
  have 1: "semanticClusters (snd (learnPattern ''hello'' ''yo'' 55 day (helloStore 50))) ''hello''
     = Some [newEntry ''hello'' ''hi'' 50 0]"
    by (simp add: hello_keywords hello_cluster newEntry_fields young single)
  from replacement_policy[OF hello_own[of 50], where k = "''hello''" and i = 0 and resp = "''yo''" and q = 61 and now = day]
  have 2: "semanticClusters (snd (learnPattern ''hello'' ''yo'' 61 day (helloStore 50))) ''hello''
     = Some [newEntry ''hello'' ''yo'' 61 day]"
    by (simp add: hello_keywords hello_cluster newEntry_fields young single)
  from replacement_policy[OF hello_own[of 70], where j = 0 and resp = "''yo''" and q = 75 and now = day]
  have 3: "contextPairs (snd (learnPattern ''hello'' ''yo'' 75 day (helloStore 70)))
     = [newEntry ''hello'' ''hi'' 70 0]"
    by (simp add: hello_keywords hello_store newEntry_fields young)
  from replacement_policy[OF hello_own[of 70], where j = 0 and resp = "''yo''" and q = 81 and now = day]
  have 4: "contextPairs (snd (learnPattern ''hello'' ''yo'' 81 day (helloStore 70)))
     = [newEntry ''hello'' ''yo'' 81 day]"
    by (simp add: hello_keywords hello_store newEntry_fields young)
  from 1 2 3 4 show ?thesis by simp
qed

text \<open>
  As stated, for an entry of \<open>contextPairs\<close> too, the property fails: a pair learnt at
  quality 70 and 31 days old is older than 30 days, yet a different response at quality
  55 does not replace it, because \<open>contextPairs\<close> is only touched by calls with
  \<open>q >= 60\<close>; the copy in the cluster is replaced.
\<close>

theorem replacement_aged_pair_counterexample:
  "olderThan30Days (contextPairs (helloStore 70) ! 0) (31 * day) \<and>
   input (contextPairs (helloStore 70) ! 0) = toLowerCase ''hello'' \<and>
   response (contextPairs (helloStore 70) ! 0) \<noteq> ''yo'' \<and>
   contextPairs (snd (learnPattern ''hello'' ''yo'' 55 (31 * day) (helloStore 70)))
     = contextPairs (helloStore 70) \<and>
   clusterOf (snd (learnPattern ''hello'' ''yo'' 55 (31 * day) (helloStore 70))) ''hello''
     = [newEntry ''hello'' ''yo'' 55 (31 * day)]"
  by (simp add: contextPairs_learnPattern[OF hello_own] clusterOf_learnPattern(2)[OF hello_own]
        hello_keywords hello_store hello_cluster day_def
        learnCluster_def upsert_def sortByScore_def newEntry_def olderThan30Days_def Let_def)



end
